(* ===== verification/Prelude.thy ===== *)
theory Prelude
  imports Main "HOL-Library.Word" "HOL-Library.Char_ord" "HOL-Library.List_Lexorder"
    "HOL-Library.Sublist" "HOL-Library.Monad_Syntax"
begin

text \<open>
  Shared vocabulary of the development: the collections of rewrite rules the component
  theories fill, the functions of the C and C++ standard library the helpers call
  (character classes, NUL-terminated strings, number parsing and printing, line input),
  and generic lemmas on lists and on traces of system calls.

  A C string is modelled by the list of its characters without the terminating NUL;
  \<open>cstr\<close> is the view a NUL-terminated reader has of a raw buffer. Characters are bytes,
  compared as unsigned values, as \<open>strcmp\<close> and \<open>std::string::operator<\<close> do.
\<close>

named_theorems cstr_simps \<open>unfoldings of the C string functions\<close>

type_synonym u8 = "8 word"
type_synonym u16 = "16 word"
type_synonym u32 = "32 word"
type_synonym u64 = "64 word"

section \<open>Error numbers\<close>

text \<open>The values of \<open>errno\<close> the helpers distinguish, as Linux numbers them.\<close>

abbreviation (input) EPERM :: int where "EPERM \<equiv> 1"
abbreviation (input) ENOENT :: int where "ENOENT \<equiv> 2"
abbreviation (input) EINTR :: int where "EINTR \<equiv> 4"
abbreviation (input) EIO :: int where "EIO \<equiv> 5"
abbreviation (input) EAGAIN :: int where "EAGAIN \<equiv> 11"
abbreviation (input) EACCES :: int where "EACCES \<equiv> 13"
abbreviation (input) EFAULT :: int where "EFAULT \<equiv> 14"
abbreviation (input) EBUSY :: int where "EBUSY \<equiv> 16"
abbreviation (input) EEXIST :: int where "EEXIST \<equiv> 17"
abbreviation (input) ENODEV :: int where "ENODEV \<equiv> 19"
abbreviation (input) EINVAL :: int where "EINVAL \<equiv> 22"
abbreviation (input) EFBIG :: int where "EFBIG \<equiv> 27"
abbreviation (input) ENOSYS :: int where "ENOSYS \<equiv> 38"

section \<open>Characters and NUL-terminated strings\<close>

abbreviation (input) NUL :: char where "NUL \<equiv> CHR 0x00"
abbreviation (input) NL :: char where "NL \<equiv> CHR 0x0A"

definition isspace :: "char \<Rightarrow> bool" where
  "isspace c \<longleftrightarrow> c \<in> {CHR '' '', CHR 0x09, CHR 0x0A, CHR 0x0B, CHR 0x0C, CHR 0x0D}"

definition isdigit :: "char \<Rightarrow> bool" where
  "isdigit c \<longleftrightarrow> CHR ''0'' \<le> c \<and> c \<le> CHR ''9''"

definition cstr :: "string \<Rightarrow> string" where
  "cstr b = takeWhile (\<lambda>c. c \<noteq> NUL) b"

definition lstrip :: "string \<Rightarrow> string" where
  "lstrip s = dropWhile isspace s"

definition rstrip :: "string \<Rightarrow> string" where
  "rstrip s = rev (dropWhile isspace (rev s))"

definition strcspn :: "string \<Rightarrow> string \<Rightarrow> nat" where
  "strcspn s reject = length (takeWhile (\<lambda>c. c \<notin> set reject) s)"

text \<open>\<open>strncmp (a, b, n) == 0\<close> on strings without NUL.\<close>

definition strneq :: "string \<Rightarrow> string \<Rightarrow> nat \<Rightarrow> bool" where
  "strneq a b n \<longleftrightarrow> take n a = take n b"

text \<open>\<open>strchr\<close> returns the suffix that starts at the match.\<close>

definition strchr :: "string \<Rightarrow> char \<Rightarrow> string option" where
  "strchr s c = (case dropWhile (\<lambda>x. x \<noteq> c) s of [] \<Rightarrow> None | x # r \<Rightarrow> Some (x # r))"

text \<open>\<open>strstr\<close>: the text before the first match, and the rest from the match on.\<close>

fun strstr :: "string \<Rightarrow> string \<Rightarrow> (string \<times> string) option" where
  "strstr [] pat = (if pat = [] then Some ([], []) else None)"
| "strstr (c # s) pat =
     (if prefix pat (c # s) then Some ([], c # s) else map_option (\<lambda>(a, b). (c # a, b)) (strstr s pat))"

lemma strstr_Some: "strstr s pat = Some (a, b) \<Longrightarrow> s = a @ b \<and> prefix pat b"
  by (induction s arbitrary: a) (auto split: if_splits)

text \<open>\<open>strsep (&s, delims)\<close>: the token, and the new value of \<open>s\<close> (\<open>None\<close> for a null pointer).\<close>

definition strsep :: "string \<Rightarrow> string \<Rightarrow> string \<times> string option" where
  "strsep s delims =
     (takeWhile (\<lambda>c. c \<notin> set delims) s,
      case dropWhile (\<lambda>c. c \<notin> set delims) s of [] \<Rightarrow> None | _ # r \<Rightarrow> Some r)"

text \<open>
  The tokens of a loop \<open>while ((t = strsep (&s, delims)))\<close>, by recursion on the string;
  \<open>strsep_loop_unfold\<close> below shows that this is the loop.
\<close>

fun strsep_loop :: "string \<Rightarrow> string \<Rightarrow> string list" where
  "strsep_loop [] delims = [[]]"
| "strsep_loop (c # s) delims =
     (if c \<in> set delims then [] # strsep_loop s delims
      else case strsep_loop s delims of [] \<Rightarrow> [[c]] | t # ts \<Rightarrow> (c # t) # ts)"

lemma strsep_loop_nonempty [simp]: "strsep_loop s d \<noteq> []"
  by (cases s) (auto split: list.splits)

lemma strsep_loop_unfold:
  "strsep_loop s d =
     (case strsep s d of (t, None) \<Rightarrow> [t] | (t, Some r) \<Rightarrow> t # strsep_loop r d)"
  by (induction s) (auto simp: strsep_def split: list.splits)

lemma strsep_loop_no_delim: "\<forall>c \<in> set s. c \<notin> set d \<Longrightarrow> strsep_loop s d = [s]"
  by (induction s) auto

lemma strsep_loop_append:
  "x \<in> set d \<Longrightarrow> strsep_loop (a @ x # b) d = strsep_loop a d @ strsep_loop b d"
  by (induction a) (auto split: list.splits)

section \<open>Numbers in decimal\<close>

text \<open>The \<open>%u\<close> and \<open>%llu\<close> conversions of \<open>printf\<close>.\<close>

function show_nat :: "nat \<Rightarrow> string" where
  "show_nat n = (if n < 10 then [char_of (48 + n)] else show_nat (n div 10) @ [char_of (48 + n mod 10)])"
  by pat_completeness auto
termination
  by (relation "measure id") auto

declare show_nat.simps [simp del]

text \<open>
  \<open>strtoul\<close> and \<open>strtoull\<close> with base 10 on a 64-bit system: leading space, a sign, digits; the
  value and the rest of the string. No digits give 0 and the whole string; a value of
  \<open>2^64\<close> or more saturates, and a minus sign negates modulo \<open>2^64\<close>.
\<close>

definition digits_val :: "string \<Rightarrow> nat" where
  "digits_val ds = foldl (\<lambda>a c. a * 10 + (of_char c - 48)) 0 ds"

definition strto_sign :: "string \<Rightarrow> bool \<times> string" where
  "strto_sign s =
     (case s of [] \<Rightarrow> (False, [])
      | c # r \<Rightarrow> if c = CHR ''-'' then (True, r) else if c = CHR ''+'' then (False, r) else (False, s))"

definition strtoull :: "string \<Rightarrow> nat \<times> string" where
  "strtoull s =
     (case strto_sign (lstrip s) of (neg, r) \<Rightarrow>
        let ds = takeWhile isdigit r; v = digits_val ds
        in if ds = [] then (0, s)
           else (if v \<ge> 2 ^ 64 then 2 ^ 64 - 1 else if neg then (2 ^ 64 - v) mod 2 ^ 64 else v,
                 dropWhile isdigit r))"

text \<open>\<open>atoi\<close> on a number that is in range.\<close>

definition atoi :: "string \<Rightarrow> int" where
  "atoi s =
     (case strto_sign (lstrip s) of (neg, r) \<Rightarrow>
        let v = int (digits_val (takeWhile isdigit r)) in if neg then - v else v)"

lemma digits_val_snoc: "digits_val (ds @ [c]) = digits_val ds * 10 + (of_char c - 48)"
  by (simp add: digits_val_def)

lemma isdigit_code: "isdigit c \<longleftrightarrow> of_char c \<in> {48..(57::nat)}"
  by (auto simp: isdigit_def less_eq_char_def)

lemma isdigit_char_of: "k < 10 \<Longrightarrow> isdigit (char_of (48 + k))" for k :: nat
  by (simp add: isdigit_code)

lemma isdigit_not_isspace: "isdigit c \<Longrightarrow> \<not> isspace c"
  by (auto simp: isdigit_code isspace_def)

lemma show_nat_digits: "c \<in> set (show_nat n) \<Longrightarrow> isdigit c"
proof (induction n rule: show_nat.induct)
  case (1 n)
  then show ?case
    by (subst (asm) (2) show_nat.simps) (auto split: if_splits simp: isdigit_char_of)
qed

lemma show_nat_nonempty [simp]: "show_nat n \<noteq> []"
  by (subst show_nat.simps) simp

lemma digits_val_show_nat [simp]: "digits_val (show_nat n) = n"
proof (induction n rule: show_nat.induct)
  case (1 n)
  then show ?case
    by (subst show_nat.simps) (simp add: digits_val_snoc digits_val_def)
qed

text \<open>Reading back a printed number.\<close>

lemma strtoull_show_nat:
  assumes "n < 2 ^ 64" and "rest = [] \<or> \<not> isdigit (hd rest)"
  shows "strtoull (show_nat n @ rest) = (n, rest)"
proof -
  obtain c r where s: "show_nat n = c # r" by (cases "show_nat n") auto
  then have c: "isdigit c" using show_nat_digits [of c n] by simp
  then have sign: "strto_sign (lstrip (show_nat n @ rest)) = (False, show_nat n @ rest)"
    using isdigit_not_isspace [OF c] by (auto simp: s strto_sign_def lstrip_def isdigit_code)
  have "takeWhile isdigit (show_nat n @ rest) = show_nat n"
    using assms(2) show_nat_digits by (cases rest) (auto simp: takeWhile_append)
  moreover have "dropWhile isdigit (show_nat n @ rest) = rest"
    using assms(2) show_nat_digits by (cases rest) (auto simp: dropWhile_append)
  ultimately show ?thesis
    using assms(1) by (simp add: strtoull_def sign Let_def)
qed

section \<open>Line input\<close>

text \<open>
  The lines \<open>getline\<close> returns, each with its newline, and one call of \<open>fgets\<close> on a stream,
  with a buffer of \<open>n\<close> bytes: the line or the part of it that fits, and the rest of the
  stream.
\<close>

fun getlines :: "string \<Rightarrow> string list" where
  "getlines [] = []"
| "getlines (c # s) =
     (if c = NL then [c] # getlines s
      else case getlines s of [] \<Rightarrow> [[c]] | l # ls \<Rightarrow> (c # l) # ls)"

fun fgets_go :: "nat \<Rightarrow> string \<Rightarrow> string \<times> string" where
  "fgets_go 0 s = ([], s)"
| "fgets_go (Suc n) [] = ([], [])"
| "fgets_go (Suc n) (c # s) =
     (if c = NL then ([c], s) else case fgets_go n s of (l, r) \<Rightarrow> (c # l, r))"

definition fgets :: "nat \<Rightarrow> string \<Rightarrow> (string \<times> string) option" where
  "fgets n s = (if s = [] then None else Some (fgets_go (n - 1) s))"

lemma concat_getlines [simp]: "concat (getlines s) = s"
  by (induction s) (auto split: list.splits)

lemma fgets_go_append: "fgets_go n s = (l, r) \<Longrightarrow> s = l @ r \<and> length l \<le> n"
  by (induction n s arbitrary: l r rule: fgets_go.induct) (auto split: if_splits prod.splits)

lemma fgets_go_progress: "0 < n \<Longrightarrow> s \<noteq> [] \<Longrightarrow> fgets_go n s = (l, r) \<Longrightarrow> length r < length s"
  by (cases n; cases s) (auto split: if_splits prod.splits dest!: fgets_go_append)

lemma fgets_length: "fgets n s = Some (l, r) \<Longrightarrow> 1 < n \<Longrightarrow> length r < length s"
  by (rule fgets_go_progress [of "n - 1" s l r]) (auto simp: fgets_def split: if_splits)

lemma fgets_go_whole: "length s \<le> n \<Longrightarrow> NL \<notin> set s \<Longrightarrow> fgets_go n s = (s, [])"
  by (induction n s rule: fgets_go.induct) auto

section \<open>Files\<close>

text \<open>The file type bits of \<open>st_mode\<close>, and the fields of \<open>struct stat\<close> the helpers read.\<close>

datatype ftype = S_REG | S_DIR | S_LNK | S_OTHER

record fstat =
  st_dev :: u64
  st_ino :: u64
  st_kind :: ftype
  st_blocks :: int
  st_size :: int
  st_atime :: int

section \<open>Lists\<close>

lemma takeWhile_dropWhile_length:
  "length (takeWhile P xs) + length (dropWhile P xs) = length xs"
  by (metis length_append takeWhile_dropWhile_id)

lemma filter_update_less:
  "i < length xs \<Longrightarrow> P (xs ! i) \<Longrightarrow> \<not> P b \<Longrightarrow> length (filter P (xs[i := b])) < length (filter P xs)"
proof (induction xs arbitrary: i)
  case (Cons x xs)
  then show ?case by (cases i) auto
qed simp

lemma strcspn_Nil [simp]: "strcspn [] r = 0"
  by (simp add: strcspn_def)

lemma strcspn_Cons: "strcspn (c # s) r = (if c \<in> set r then 0 else Suc (strcspn s r))"
  by (simp add: strcspn_def)

lemma strcspn_less: "strcspn s r \<noteq> length s \<Longrightarrow> strcspn s r < length s \<and> s ! strcspn s r \<in> set r"
  using nth_length_takeWhile [of "\<lambda>c. c \<notin> set r" s] length_takeWhile_le [of "\<lambda>c. c \<notin> set r" s]
  by (auto simp: strcspn_def)

lemma strcspn_le: "strcspn s r \<le> length s"
  by (simp add: strcspn_def length_takeWhile_le)

lemma rstrip_append_nonspace [simp]: "\<not> isspace c \<Longrightarrow> rstrip (s @ [c]) = s @ [c]"
  by (simp add: rstrip_def)

lemma rstrip_idem [simp]: "rstrip (rstrip s) = rstrip s"
  by (simp add: rstrip_def)

lemma lstrip_idem [simp]: "lstrip (lstrip s) = lstrip s"
  by (simp add: lstrip_def)

lemma cstr_no_nul [simp]: "NUL \<notin> set (cstr b)"
  by (auto simp: cstr_def dest: set_takeWhileD)

lemma cstr_id [simp]: "NUL \<notin> set s \<Longrightarrow> cstr s = s"
  by (simp add: cstr_def takeWhile_eq_all_conv) metis

section \<open>White space around a text\<close>

definition trimmed :: "string \<Rightarrow> bool" where
  "trimmed s \<longleftrightarrow> s = [] \<or> \<not> isspace (hd s) \<and> \<not> isspace (last s)"

definition blank :: "string \<Rightarrow> bool" where
  "blank s \<longleftrightarrow> (\<forall>c \<in> set s. isspace c)"

lemma lstrip_blank: "blank s \<Longrightarrow> lstrip (s @ t) = lstrip t"
  by (simp add: lstrip_def blank_def dropWhile_append)

lemma rstrip_blank: "blank s \<Longrightarrow> rstrip (t @ s) = rstrip t"
  by (simp add: rstrip_def blank_def dropWhile_append)

lemma lstrip_trimmed: "trimmed s \<Longrightarrow> s \<noteq> [] \<Longrightarrow> lstrip (s @ t) = s @ t"
  by (cases s) (simp_all add: trimmed_def lstrip_def)

lemma rstrip_trimmed: "trimmed s \<Longrightarrow> s \<noteq> [] \<Longrightarrow> rstrip (t @ s) = t @ s"
  by (cases s rule: rev_cases) (simp_all add: trimmed_def rstrip_def)

lemma isspace_nul [simp]: "\<not> isspace NUL"
  by (simp add: isspace_def)

lemma blank_notin: "blank s \<Longrightarrow> \<not> isspace c \<Longrightarrow> c \<notin> set s"
  by (auto simp: blank_def)

lemma blank_nul: "blank s \<Longrightarrow> NUL \<notin> set s"
  by (simp add: blank_notin)

section \<open>Traces of system calls\<close>

text \<open>
  The operating system is a parameter of the models: every operation gets an environment
  that answers its system calls, and the answer may depend on the trace of the
  state-changing calls made so far. \<open>adds P l l'\<close>: the trace \<open>l'\<close> extends \<open>l\<close> by calls that
  satisfy \<open>P\<close>.
\<close>

definition adds :: "('c \<Rightarrow> bool) \<Rightarrow> 'c list \<Rightarrow> 'c list \<Rightarrow> bool" where
  "adds P l l' \<longleftrightarrow> (\<exists>m. l' = l @ m \<and> list_all P m)"

lemma adds_refl [simp, intro]: "adds P l l"
  by (simp add: adds_def)

lemma adds_append [simp]: "adds P l (l @ m) \<longleftrightarrow> list_all P m"
  by (simp add: adds_def)

lemma adds_trans: "adds P a b \<Longrightarrow> adds P b c \<Longrightarrow> adds P a c"
  by (auto simp: adds_def)

lemma adds_snocD: "adds P (l @ m) l' \<Longrightarrow> list_all P m \<Longrightarrow> adds P l l'"
  by (rule adds_trans) simp_all

lemma adds_mono: "adds P a b \<Longrightarrow> (\<And>c. P c \<Longrightarrow> Q c) \<Longrightarrow> adds Q a b"
  by (auto simp: adds_def list_all_iff)

lemma adds_prefix: "adds P l l' \<Longrightarrow> prefix l l'"
  by (auto simp: adds_def)

lemma adds_mem: "adds P l l' \<Longrightarrow> c \<in> set l' \<Longrightarrow> c \<in> set l \<or> P c"
  by (auto simp: adds_def list_all_iff)

lemma adds_new: "adds P l l' \<Longrightarrow> c \<in> set (drop (length l) l') \<Longrightarrow> P c"
  by (auto simp: adds_def list_all_iff)

section \<open>Computations that may die\<close>

text \<open>A step over the elements of a list, where \<open>None\<close> ends the program.\<close>

fun foldo :: "('i \<Rightarrow> 's \<Rightarrow> 's option) \<Rightarrow> 'i list \<Rightarrow> 's \<Rightarrow> 's option" where
  "foldo step [] st = Some st"
| "foldo step (i # is) st = Option.bind (step i st) (foldo step is)"

lemma foldo_append: "foldo step (xs @ ys) st = Option.bind (foldo step xs st) (foldo step ys)"
  by (induction xs arbitrary: st) (auto split: bind_splits)

text \<open>A computation returns, and what it returns satisfies the predicate.\<close>

definition yields :: "'a option \<Rightarrow> ('a \<Rightarrow> bool) \<Rightarrow> bool" where
  "yields m P = (case m of None \<Rightarrow> False | Some x \<Rightarrow> P x)"

lemma yields_Some [simp]: "yields (Some x) P = P x"
  by (simp add: yields_def)

lemma yields_None [simp]: "\<not> yields None P"
  by (simp add: yields_def)

lemma yieldsD: "yields m P \<Longrightarrow> \<exists>x. m = Some x \<and> P x"
  by (auto simp: yields_def split: option.splits)

lemma yields_bind: "yields m Q \<Longrightarrow> (\<And>x. Q x \<Longrightarrow> yields (f x) P) \<Longrightarrow> yields (Option.bind m f) P"
  by (cases m) auto

lemma yields_mono: "yields m Q \<Longrightarrow> (\<And>x. Q x \<Longrightarrow> P x) \<Longrightarrow> yields m P"
  by (cases m) auto

lemma yields_map_option [simp]: "yields (map_option f m) P = yields m (\<lambda>x. P (f x))"
  by (cases m) auto

text \<open>A step that keeps an invariant, and its runs over lists of inputs.\<close>

locale safe_step =
  fixes step :: "'i \<Rightarrow> 's \<Rightarrow> 's option" and good :: "'i \<Rightarrow> bool" and inv :: "'s \<Rightarrow> bool"
  assumes step_keeps: "good i \<Longrightarrow> inv st \<Longrightarrow> yields (step i st) inv"
begin

lemma run_keeps: "list_all good is \<Longrightarrow> inv st \<Longrightarrow> yields (foldo step is st) inv"
proof (induction "is" arbitrary: st)
  case Nil
  then show ?case by simp
next
  case (Cons i "is")
  from Cons.prems have "yields (step i st) inv" by (simp add: step_keeps)
  then show ?case using Cons by (auto intro: yields_bind)
qed

end

end
