(* ===== verification/Blake2s.thy ===== *)
theory Blake2s
  imports Prelude
begin

unbundle bit_operations_syntax

text \<open>
  The BLAKE2s implementation of \<^verbatim>\<open>src/early/helpers/seedrng.cc\<close>: the state, the compression
  function and the streaming interface \<open>blake2s_init\<close>, \<open>blake2s_update\<close>, \<open>blake2s_final\<close>.
  The main result is that streaming any sequence of chunks computes the one-shot hash of
  their concatenation, as RFC 7693 defines it.
\<close>

section \<open>The implementation\<close>

abbreviation (input) BLAKE2S_BLOCK_LEN :: nat where "BLAKE2S_BLOCK_LEN \<equiv> 64"
abbreviation (input) BLAKE2S_HASH_LEN :: nat where "BLAKE2S_HASH_LEN \<equiv> 32"

text \<open>
  \<open>t\<close> and \<open>f\<close> are the two-element arrays of the C structure. \<open>buf\<close> always has 64 bytes, of
  which the first \<open>buflen\<close> are pending input.
\<close>

record blake2s_state =
  bs_h :: "u32 list"
  bs_t :: "u32 \<times> u32"
  bs_f :: "u32 \<times> u32"
  bs_buf :: "u8 list"
  bs_buflen :: nat
  bs_outlen :: nat

text \<open>Words in little-endian byte order: \<open>le32_to_cpu_array\<close> and \<open>cpu_to_le32_array\<close>.\<close>

definition le32 :: "u8 list \<Rightarrow> u32" where
  "le32 bs = ucast (bs ! 0) OR push_bit 8 (ucast (bs ! 1)) OR push_bit 16 (ucast (bs ! 2))
     OR push_bit 24 (ucast (bs ! 3))"

fun le32_to_cpu_array :: "u8 list \<Rightarrow> nat \<Rightarrow> u32 list" where
  "le32_to_cpu_array buf 0 = []"
| "le32_to_cpu_array buf (Suc words) = le32 (take 4 buf) # le32_to_cpu_array (drop 4 buf) words"

definition le_bytes :: "u32 \<Rightarrow> u8 list" where
  "le_bytes w = [ucast w, ucast (drop_bit 8 w), ucast (drop_bit 16 w), ucast (drop_bit 24 w)]"

definition cpu_to_le32_array :: "u32 list \<Rightarrow> u8 list" where
  "cpu_to_le32_array ws = concat (map le_bytes ws)"

definition ror32 :: "u32 \<Rightarrow> u32 \<Rightarrow> u32" where
  "ror32 word shift = drop_bit (unat (shift AND 31)) word OR push_bit (unat ((- shift) AND 31)) word"

definition blake2s_iv :: "u32 list" where
  "blake2s_iv =
    [0x6A09E667, 0xBB67AE85, 0x3C6EF372, 0xA54FF53A,
     0x510E527F, 0x9B05688C, 0x1F83D9AB, 0x5BE0CD19]"

definition blake2s_sigma :: "nat list list" where
  "blake2s_sigma =
    [[ 0, 1, 2, 3, 4, 5, 6, 7, 8, 9, 10, 11, 12, 13, 14, 15 ],
     [ 14, 10, 4, 8, 9, 15, 13, 6, 1, 12, 0, 2, 11, 7, 5, 3 ],
     [ 11, 8, 12, 0, 5, 2, 15, 13, 10, 14, 3, 6, 7, 1, 9, 4 ],
     [ 7, 9, 3, 1, 13, 12, 11, 14, 2, 6, 5, 10, 4, 0, 15, 8 ],
     [ 9, 0, 5, 7, 2, 4, 10, 15, 14, 1, 11, 12, 6, 8, 3, 13 ],
     [ 2, 12, 6, 10, 0, 11, 8, 3, 4, 13, 7, 5, 15, 14, 1, 9 ],
     [ 12, 5, 1, 15, 14, 13, 4, 10, 0, 7, 6, 3, 9, 2, 8, 11 ],
     [ 13, 11, 7, 14, 12, 1, 3, 9, 5, 0, 15, 4, 8, 6, 2, 10 ],
     [ 6, 15, 14, 9, 11, 3, 0, 8, 12, 2, 13, 7, 1, 4, 10, 5 ],
     [ 10, 2, 8, 4, 7, 6, 1, 5, 15, 11, 9, 14, 3, 12, 13, 0 ]]"

definition blake2s_set_lastblock :: "blake2s_state \<Rightarrow> blake2s_state" where
  "blake2s_set_lastblock state = state\<lparr>bs_f := (- 1, snd (bs_f state))\<rparr>"

definition blake2s_increment_counter :: "blake2s_state \<Rightarrow> u32 \<Rightarrow> blake2s_state" where
  "blake2s_increment_counter state inc =
     (case bs_t state of (t0, t1) \<Rightarrow>
        let t0 = t0 + inc in state\<lparr>bs_t := (t0, t1 + (if t0 < inc then 1 else 0))\<rparr>)"

definition blake2s_init_param :: "u32 \<Rightarrow> blake2s_state" where
  "blake2s_init_param param =
     \<lparr>bs_h = blake2s_iv[0 := blake2s_iv ! 0 XOR param], bs_t = (0, 0), bs_f = (0, 0),
      bs_buf = replicate 64 0, bs_buflen = 0, bs_outlen = 0\<rparr>"

definition blake2s_init :: "nat \<Rightarrow> blake2s_state" where
  "blake2s_init outlen = (blake2s_init_param (0x01010000 OR of_nat outlen))\<lparr>bs_outlen := outlen\<rparr>"

text \<open>The macros \<open>G\<close> and \<open>ROUND\<close>: the last four arguments of \<open>G\<close> are positions in \<open>v\<close>.\<close>

definition G :: "u32 list \<Rightarrow> nat \<Rightarrow> nat \<Rightarrow> nat \<Rightarrow> nat \<Rightarrow> nat \<Rightarrow> nat \<Rightarrow> u32 list \<Rightarrow> u32 list" where
  "G m r i a b c d v =
     (let v = v[a := v ! a + (v ! b + m ! (blake2s_sigma ! r ! (2 * i + 0)))];
          v = v[d := ror32 (v ! d XOR v ! a) 16];
          v = v[c := v ! c + v ! d];
          v = v[b := ror32 (v ! b XOR v ! c) 12];
          v = v[a := v ! a + (v ! b + m ! (blake2s_sigma ! r ! (2 * i + 1)))];
          v = v[d := ror32 (v ! d XOR v ! a) 8];
          v = v[c := v ! c + v ! d]
      in v[b := ror32 (v ! b XOR v ! c) 7])"

definition ROUND :: "u32 list \<Rightarrow> nat \<Rightarrow> u32 list \<Rightarrow> u32 list" where
  "ROUND m r v =
     (let v = G m r 0 0 4 8 12 v;
          v = G m r 1 1 5 9 13 v;
          v = G m r 2 2 6 10 14 v;
          v = G m r 3 3 7 11 15 v;
          v = G m r 4 0 5 10 15 v;
          v = G m r 5 1 6 11 12 v;
          v = G m r 6 2 7 8 13 v
      in G m r 7 3 4 9 14 v)"

definition ROUNDS :: "u32 list \<Rightarrow> u32 list \<Rightarrow> u32 list" where
  "ROUNDS m v = fold (ROUND m) [0, 1, 2, 3, 4, 5, 6, 7, 8, 9] v"

text \<open>The body of the loop of \<open>blake2s_compress\<close>, for one block.\<close>

definition blake2s_compress_block :: "blake2s_state \<Rightarrow> u8 list \<Rightarrow> u32 \<Rightarrow> blake2s_state" where
  "blake2s_compress_block state block inc =
     (let state = blake2s_increment_counter state inc;
          m = le32_to_cpu_array block 16;
          v = take 8 (bs_h state) @
              [blake2s_iv ! 0, blake2s_iv ! 1, blake2s_iv ! 2, blake2s_iv ! 3,
               blake2s_iv ! 4 XOR fst (bs_t state), blake2s_iv ! 5 XOR snd (bs_t state),
               blake2s_iv ! 6 XOR fst (bs_f state), blake2s_iv ! 7 XOR snd (bs_f state)];
          v = ROUNDS m v
      in state\<lparr>bs_h := map (\<lambda>i. bs_h state ! i XOR (v ! i XOR v ! (i + 8))) [0..<8]\<rparr>)"

fun blake2s_compress :: "blake2s_state \<Rightarrow> u8 list \<Rightarrow> nat \<Rightarrow> u32 \<Rightarrow> blake2s_state" where
  "blake2s_compress state block 0 inc = state"
| "blake2s_compress state block (Suc nblocks) inc =
     blake2s_compress (blake2s_compress_block state (take 64 block) inc) (drop 64 block) nblocks inc"

text \<open>\<open>memcpy (dst + off, src, n)\<close> on a byte array.\<close>

definition memcpy_at :: "u8 list \<Rightarrow> nat \<Rightarrow> u8 list \<Rightarrow> u8 list" where
  "memcpy_at dst off src = take off dst @ src @ drop (off + length src) dst"

definition DIV_ROUND_UP :: "nat \<Rightarrow> nat \<Rightarrow> nat" where
  "DIV_ROUND_UP n d = (n + d - 1) div d"

text \<open>
  The three parts of \<open>blake2s_update\<close>: filling and compressing the buffer, compressing whole
  blocks (the last one is always kept back), and storing the rest.
\<close>

definition update_fill :: "blake2s_state \<Rightarrow> u8 list \<Rightarrow> blake2s_state \<times> u8 list" where
  "update_fill state inp =
     (let fill = 64 - bs_buflen state
      in if length inp > fill then
           let state = state\<lparr>bs_buf := memcpy_at (bs_buf state) (bs_buflen state) (take fill inp)\<rparr>;
               state = blake2s_compress state (bs_buf state) 1 64
           in (state\<lparr>bs_buflen := 0\<rparr>, drop fill inp)
         else (state, inp))"

definition update_blocks :: "blake2s_state \<times> u8 list \<Rightarrow> blake2s_state \<times> u8 list" where
  "update_blocks si =
     (case si of (state, inp) \<Rightarrow>
        if length inp > 64 then
          let nblocks = DIV_ROUND_UP (length inp) 64
          in (blake2s_compress state inp (nblocks - 1) 64, drop (64 * (nblocks - 1)) inp)
        else (state, inp))"

definition update_store :: "blake2s_state \<times> u8 list \<Rightarrow> blake2s_state" where
  "update_store si =
     (case si of (state, inp) \<Rightarrow>
        state\<lparr>bs_buf := memcpy_at (bs_buf state) (bs_buflen state) inp,
              bs_buflen := bs_buflen state + length inp\<rparr>)"

definition blake2s_update :: "blake2s_state \<Rightarrow> u8 list \<Rightarrow> blake2s_state" where
  "blake2s_update state inp =
     (if inp = [] then state
      else update_store (update_blocks (update_fill state inp)))"

definition blake2s_final :: "blake2s_state \<Rightarrow> u8 list" where
  "blake2s_final state =
     (let state = blake2s_set_lastblock state;
          state = state\<lparr>bs_buf := memcpy_at (bs_buf state) (bs_buflen state) (replicate (64 - bs_buflen state) 0)\<rparr>;
          state = blake2s_compress state (bs_buf state) 1 (of_nat (bs_buflen state))
      in take (bs_outlen state) (cpu_to_le32_array (bs_h state)))"


section \<open>Rotation\<close>

lemma unat_and_31: "unat ((s :: u32) AND 31) = unat s mod 32"
proof -
  have "s AND 31 = take_bit 5 s" by (simp add: take_bit_eq_mask mask_eq_exp_minus_1)
  then have "unat (s AND 31) = take_bit 5 (unat s)" by (simp only: unsigned_take_bit_eq)
  then show ?thesis by (simp add: take_bit_eq_mod)
qed

lemma unat_minus_mod_32: "unat (- (s :: u32)) mod 32 = (32 - unat s mod 32) mod 32"
proof -
  have "int (unat (- s) mod 32) = (- uint s) mod 32"
    by (simp add: uint_word_ariths(4) zmod_int mod_mod_cancel flip: uint_nat)
  also have "\<dots> = int ((32 - unat s mod 32) mod 32)"
    by (simp add: zmod_int of_nat_diff mod_simps flip: uint_nat) 
  finally show ?thesis by linarith
qed

text \<open>
  \<open>ror32\<close> is rotation to the right for every shift count, zero and counts of 32 and more
  included, although it shifts by \<open>shift\<close> and \<open>-shift\<close> modulo 32 separately.
\<close>

lemma ror32_rotr: "ror32 w s = word_rotr (unat s) w"
proof (rule bit_word_eqI)
  fix n
  assume n: "n < LENGTH(32)"
  define k where "k = unat s mod 32"
  have k: "k < 32" by (simp add: k_def)
  have "(n + unat s) mod 32 = (if n + k < 32 then n + k else n + k - 32)"
  proof -
    have "(n + unat s) mod 32 = (n + k) mod 32" by (simp add: k_def mod_add_right_eq)
    with n k show ?thesis by (simp add: mod_if)
  qed
  moreover have "(32 - k) mod 32 = (if k = 0 then 0 else 32 - k)" using k by simp
  ultimately show "bit (ror32 w s) n = bit (word_rotr (unat s) w) n"
    using n k by (auto simp: ror32_def unat_and_31 unat_minus_mod_32 k_def [symmetric] bit_word_rotr_iff
      bit_simps add.commute dest: bit_imp_le_length)
qed

section \<open>The reference: RFC 7693\<close>

text \<open>
  The compression function \<open>F\<close> of RFC 7693, section 3.2, on the number \<open>t\<close> of message bytes
  so far, and the hash of a whole message, section 3.3: all blocks but the last are
  compressed with the final flag off, the last one, padded with zeros, with the flag on.
\<close>

definition rfc_F :: "u32 list \<Rightarrow> u8 list \<Rightarrow> nat \<Rightarrow> bool \<Rightarrow> u32 list" where
  "rfc_F h block t final =
     (let v = ROUNDS (le32_to_cpu_array block 16)
            (take 8 h @ take 4 blake2s_iv @
             [blake2s_iv ! 4 XOR of_nat t, blake2s_iv ! 5 XOR of_nat (t div 2 ^ 32),
              blake2s_iv ! 6 XOR (if final then - 1 else 0), blake2s_iv ! 7])
      in map (\<lambda>i. h ! i XOR (v ! i XOR v ! (i + 8))) [0..<8])"

function rfc_absorb :: "u32 list \<Rightarrow> nat \<Rightarrow> u8 list \<Rightarrow> u32 list" where
  "rfc_absorb h t msg =
     (if length msg > 64 then rfc_absorb (rfc_F h (take 64 msg) (t + 64) False) (t + 64) (drop 64 msg)
      else rfc_F h (msg @ replicate (64 - length msg) 0) (t + length msg) True)"
  by pat_completeness auto
termination
  by (relation "measure (\<lambda>(h, t, msg). length msg)") auto

declare rfc_absorb.simps [simp del]

definition rfc_blake2s :: "nat \<Rightarrow> u8 list \<Rightarrow> u8 list" where
  "rfc_blake2s outlen msg =
     take outlen (cpu_to_le32_array
       (rfc_absorb (blake2s_iv[0 := blake2s_iv ! 0 XOR (0x01010000 OR of_nat outlen)]) 0 msg))"

section \<open>Refinement\<close>

text \<open>The two counter words hold the byte count modulo \<open>2^64\<close>.\<close>

definition ctr :: "nat \<Rightarrow> u32 \<times> u32" where
  "ctr t = (of_nat t, of_nat (t div 2 ^ 32))"

lemma div_carry:
  fixes t inc m :: nat
  assumes "inc < m"
  shows "(t + inc) div m = t div m + (if (t + inc) mod m < inc then 1 else 0)"
proof -
  define r where "r = t mod m"
  have r: "r < m" using assms by (simp add: r_def)
  have t: "t + inc = (r + inc) + (t div m) * m" by (simp add: r_def)
  have "(t + inc) div m = (r + inc) div m + t div m" "(t + inc) mod m = (r + inc) mod m"
    using assms by (subst t, simp)+
  moreover have "(r + inc) div m = (if r + inc < m then 0 else 1)"
    "(r + inc) mod m = (if r + inc < m then r + inc else r + inc - m)"
    using assms r by (auto simp: div_if mod_if)
  ultimately show ?thesis using r assms by auto
qed

lemma increment_counter_ctr:
  assumes "bs_t st = ctr t" and "inc < 2 ^ 32"
  shows "blake2s_increment_counter st (of_nat inc) = st\<lparr>bs_t := ctr (t + inc)\<rparr>"
proof -
  have "unat (of_nat t + of_nat inc :: u32) = (t + inc) mod 2 ^ 32"
    by (simp add: unat_of_nat flip: of_nat_add)
  then have "(of_nat t + of_nat inc :: u32) < of_nat inc \<longleftrightarrow> (t + inc) mod 2 ^ 32 < inc"
    using assms(2) by (simp add: word_less_nat_alt unat_of_nat)
  then show ?thesis
    using assms by (simp add: blake2s_increment_counter_def ctr_def Let_def div_carry [of inc "0x100000000" t])
qed

text \<open>\<open>absorb h t msg n\<close>: the first \<open>n\<close> blocks of \<open>msg\<close>, none of them the last one.\<close>

fun absorb :: "u32 list \<Rightarrow> nat \<Rightarrow> u8 list \<Rightarrow> nat \<Rightarrow> u32 list" where
  "absorb h t msg 0 = h"
| "absorb h t msg (Suc n) = absorb (rfc_F h (take 64 msg) (t + 64) False) (t + 64) (drop 64 msg) n"

lemma compress_block_F:
  assumes "bs_t st = ctr t" and "inc < 2 ^ 32" and "snd (bs_f st) = 0"
    and "fst (bs_f st) = (if final then - 1 else 0)"
  shows "blake2s_compress_block st block (of_nat inc) =
    st\<lparr>bs_t := ctr (t + inc), bs_h := rfc_F (bs_h st) block (t + inc) final\<rparr>"
  using assms(3,4)
  by (simp add: blake2s_compress_block_def increment_counter_ctr [OF assms(1,2)] rfc_F_def Let_def ctr_def
      blake2s_iv_def)

lemma compress_absorb:
  assumes "bs_t st = ctr t" and "bs_f st = (0, 0)"
  shows "blake2s_compress st msg n 64 =
    st\<lparr>bs_t := ctr (t + 64 * n), bs_h := absorb (bs_h st) t msg n\<rparr>"
  using assms
proof (induction n arbitrary: st t msg)
  case (Suc n)
  have "blake2s_compress_block st (take 64 msg) 64 =
      st\<lparr>bs_t := ctr (t + 64), bs_h := rfc_F (bs_h st) (take 64 msg) (t + 64) False\<rparr>"
    using compress_block_F [OF Suc.prems(1), of 64 False "take 64 msg"] Suc.prems(2) by simp
  then show ?case using Suc.prems(2) by (simp add: Suc.IH [where t = "t + 64"] add.assoc)
qed simp

lemma absorb_append:
  "64 * n \<le> length a \<Longrightarrow> absorb h t (a @ b) n = absorb h t a n"
  by (induction n arbitrary: h t a) auto

lemma absorb_add:
  "absorb h t msg (n + k) = absorb (absorb h t msg n) (t + 64 * n) (drop (64 * n) msg) k"
  by (induction n arbitrary: h t msg) (auto simp: ac_simps)

lemma rfc_absorb_absorb:
  assumes "64 * n < length msg \<or> n = 0"
  shows "rfc_absorb h t msg = rfc_absorb (absorb h t msg n) (t + 64 * n) (drop (64 * n) msg)"
  using assms
proof (induction n arbitrary: h t msg)
  case (Suc n)
  then have "length msg > 64" by simp
  then have "rfc_absorb h t msg = rfc_absorb (rfc_F h (take 64 msg) (t + 64) False) (t + 64) (drop 64 msg)"
    by (simp add: rfc_absorb.simps [of h t msg])
  also have "\<dots> = rfc_absorb (absorb h t msg (Suc n)) (t + 64 * Suc n) (drop (64 * Suc n) msg)"
    using Suc.prems by (subst Suc.IH) (auto simp: ac_simps)
  finally show ?case .
qed simp

text \<open>
  A state represents the message \<open>msg\<close> streamed so far: \<open>n\<close> blocks are compressed, the
  buffer holds the rest, which is empty only for the empty message.
\<close>

definition blake2s_rep :: "nat \<Rightarrow> blake2s_state \<Rightarrow> u8 list \<Rightarrow> bool" where
  "blake2s_rep outlen st msg \<longleftrightarrow>
     length (bs_buf st) = 64 \<and> bs_f st = (0, 0) \<and> bs_outlen st = outlen \<and>
     (\<exists>n. bs_t st = ctr (64 * n) \<and> bs_buflen st \<le> 64 \<and> length msg = 64 * n + bs_buflen st \<and>
        (bs_buflen st = 0 \<longrightarrow> n = 0) \<and>
        drop (64 * n) msg = take (bs_buflen st) (bs_buf st) \<and>
        bs_h st = absorb (bs_h (blake2s_init outlen)) 0 msg n)"

lemma length_memcpy_at:
  "off + length src \<le> length dst \<Longrightarrow> length (memcpy_at dst off src) = length dst"
  by (simp add: memcpy_at_def)

lemma take_memcpy_at:
  "off \<le> length dst \<Longrightarrow> take (off + length src) (memcpy_at dst off src) = take off dst @ src"
  by (simp add: memcpy_at_def)

lemma blake2s_rep_init: "blake2s_rep outlen (blake2s_init outlen) []"
  by (simp add: blake2s_rep_def blake2s_init_def blake2s_init_param_def ctr_def)

text \<open>The block-wise part of an update, from a state whose buffer was just compressed.\<close>

definition aligned :: "nat \<Rightarrow> blake2s_state \<Rightarrow> u8 list \<Rightarrow> nat \<Rightarrow> bool" where
  "aligned outlen st msg n \<longleftrightarrow>
     length (bs_buf st) = 64 \<and> bs_f st = (0, 0) \<and> bs_outlen st = outlen \<and> bs_buflen st = 0 \<and>
     bs_t st = ctr (64 * n) \<and> length msg = 64 * n \<and>
     bs_h st = absorb (bs_h (blake2s_init outlen)) 0 msg n"

lemma aligned_blocks:
  assumes a: "aligned outlen st msg n" and k: "64 * k \<le> length inp"
  shows "aligned outlen (blake2s_compress st inp k 64) (msg @ take (64 * k) inp) (n + k)"
proof -
  have "absorb (absorb h 0 msg n) (64 * n) inp k = absorb h 0 (msg @ take (64 * k) inp) (n + k)" for h
  proof -
    have "absorb h 0 (msg @ take (64 * k) inp) (n + k) =
        absorb (absorb h 0 (msg @ take (64 * k) inp) n) (0 + 64 * n) (drop (64 * n) (msg @ take (64 * k) inp)) k"
      by (rule absorb_add)
    also have "\<dots> = absorb (absorb h 0 msg n) (64 * n) (take (64 * k) inp) k"
      using a by (simp add: aligned_def absorb_append)
    also have "\<dots> = absorb (absorb h 0 msg n) (64 * n) (take (64 * k) inp @ drop (64 * k) inp) k"
      using k by (subst absorb_append) auto
    finally show ?thesis by simp
  qed
  then show ?thesis
    using a k by (simp add: aligned_def compress_absorb [where t = "64 * n"] distrib_left)
qed

lemma aligned_store:
  assumes "aligned outlen st msg n" and "inp \<noteq> []" and "length inp \<le> 64"
  shows "blake2s_rep outlen (update_store (st, inp)) (msg @ inp)"
  using assms by (auto simp: update_store_def aligned_def blake2s_rep_def length_memcpy_at absorb_append
      intro!: exI [of _ n] simp: memcpy_at_def)

lemma rep_store:
  assumes "blake2s_rep outlen st msg" and "inp \<noteq> []" and "length inp \<le> 64 - bs_buflen st"
  shows "blake2s_rep outlen (update_store (st, inp)) (msg @ inp)"
  using assms by (auto simp: update_store_def blake2s_rep_def length_memcpy_at take_memcpy_at absorb_append)

lemma rep_fill:
  assumes r: "blake2s_rep outlen st msg" and l: "64 - bs_buflen st < length inp"
  obtains n where "aligned outlen (fst (update_fill st inp)) (msg @ take (64 - bs_buflen st) inp) n"
    and "snd (update_fill st inp) = drop (64 - bs_buflen st) inp"
proof -
  from r obtain n where n: "bs_t st = ctr (64 * n)" "bs_buflen st \<le> 64" "length msg = 64 * n + bs_buflen st"
    "drop (64 * n) msg = take (bs_buflen st) (bs_buf st)" "length (bs_buf st) = 64" "bs_f st = (0, 0)"
    "bs_outlen st = outlen" "bs_h st = absorb (bs_h (blake2s_init outlen)) 0 msg n"
    by (auto simp: blake2s_rep_def)
  let ?m = "msg @ take (64 - bs_buflen st) inp"
  define st' where "st' = st\<lparr>bs_buf := memcpy_at (bs_buf st) (bs_buflen st) (take (64 - bs_buflen st) inp)\<rparr>"
  have buf: "bs_buf st' = drop (64 * n) ?m" and len: "length (bs_buf st') = 64"
    using n l by (simp_all add: st'_def memcpy_at_def)
  have abs: "absorb h 0 ?m (n + 1) = absorb (absorb h 0 msg n) (64 * n) (bs_buf st') 1" for h
    using absorb_add [of h 0 ?m n 1] n by (simp add: absorb_append buf del: absorb.simps)
  have "blake2s_compress st' (bs_buf st') 1 64 =
      st'\<lparr>bs_t := ctr (64 * n + 64 * 1), bs_h := absorb (bs_h st') (64 * n) (bs_buf st') 1\<rparr>"
    by (rule compress_absorb) (simp_all add: st'_def n)
  moreover have "bs_h st' = bs_h st" by (simp add: st'_def)
  ultimately have "aligned outlen ((blake2s_compress st' (bs_buf st') 1 64)\<lparr>bs_buflen := 0\<rparr>) ?m (n + 1)"
    unfolding aligned_def abs
    using n l len by (simp add: st'_def add.commute del: absorb.simps blake2s_compress.simps)
  moreover have "update_fill st inp =
      ((blake2s_compress st' (bs_buf st') 1 64)\<lparr>bs_buflen := 0\<rparr>, drop (64 - bs_buflen st) inp)"
    using l by (simp add: update_fill_def Let_def st'_def del: blake2s_compress.simps)
  ultimately show ?thesis using that by simp
qed

lemma div_round_up_64:
  assumes "0 < l"
  defines "k \<equiv> DIV_ROUND_UP l 64 - 1"
  shows "64 * k < l" and "l - 64 * k \<le> 64"
  using assms by (auto simp: DIV_ROUND_UP_def)

lemma aligned_tail:
  assumes a: "aligned outlen st msg n" and ne: "inp \<noteq> []"
  shows "blake2s_rep outlen (update_store (update_blocks (st, inp))) (msg @ inp)"
proof (cases "length inp > 64")
  case True
  define k where "k = DIV_ROUND_UP (length inp) 64 - 1"
  have k: "64 * k < length inp" "length inp - 64 * k \<le> 64"
    using div_round_up_64 [of "length inp"] ne by (simp_all add: k_def)
  have "aligned outlen (blake2s_compress st inp k 64) (msg @ take (64 * k) inp) (n + k)"
    using a k by (intro aligned_blocks) simp_all
  from aligned_store [OF this, of "drop (64 * k) inp"] k show ?thesis
    using True by (simp add: update_blocks_def Let_def k_def)
next
  case False
  with aligned_store [OF a ne] show ?thesis by (simp add: update_blocks_def)
qed

lemma blake2s_rep_update:
  assumes "blake2s_rep outlen st msg"
  shows "blake2s_rep outlen (blake2s_update st inp) (msg @ inp)"
proof -
  consider "inp = []" | "inp \<noteq> []" "length inp \<le> 64 - bs_buflen st" | "64 - bs_buflen st < length inp"
    by linarith
  then show ?thesis
  proof cases
    case 1
    with assms show ?thesis by (simp add: blake2s_update_def)
  next
    case 2
    from rep_store [OF assms this] 2 show ?thesis
      by (simp add: blake2s_update_def update_fill_def update_blocks_def)
  next
    case 3
    obtain n where n: "aligned outlen (fst (update_fill st inp)) (msg @ take (64 - bs_buflen st) inp) n"
      and d: "snd (update_fill st inp) = drop (64 - bs_buflen st) inp"
      using rep_fill [OF assms 3] by blast
    have "inp \<noteq> []" and e: "(fst (update_fill st inp), drop (64 - bs_buflen st) inp) = update_fill st inp"
      using 3 d by (auto simp: prod_eq_iff)
    moreover have "blake2s_rep outlen (update_store (update_blocks (update_fill st inp))) (msg @ inp)"
      using aligned_tail [OF n, of "drop (64 - bs_buflen st) inp"] 3 by (simp add: e)
    ultimately show ?thesis by (simp add: blake2s_update_def)
  qed
qed

lemma blake2s_rep_final:
  assumes "blake2s_rep outlen st msg"
  shows "blake2s_final st = rfc_blake2s outlen msg"
proof -
  from assms obtain n where n: "bs_t st = ctr (64 * n)" "bs_buflen st \<le> 64" "length msg = 64 * n + bs_buflen st"
    "bs_buflen st = 0 \<longrightarrow> n = 0"
    "drop (64 * n) msg = take (bs_buflen st) (bs_buf st)" "length (bs_buf st) = 64" "bs_f st = (0, 0)"
    "bs_outlen st = outlen" "bs_h st = absorb (bs_h (blake2s_init outlen)) 0 msg n"
    by (auto simp: blake2s_rep_def)
  let ?tail = "drop (64 * n) msg" and ?h = "bs_h (blake2s_init outlen)"
  have l: "length ?tail = bs_buflen st" using n by simp
  have "rfc_absorb ?h 0 msg = rfc_absorb (bs_h st) (64 * n) ?tail"
    using rfc_absorb_absorb [of n msg ?h 0] n by fastforce
  also have "\<dots> = rfc_F (bs_h st) (?tail @ replicate (64 - length ?tail) 0) (64 * n + length ?tail) True"
    using l n(2) by (simp add: rfc_absorb.simps [of "bs_h st"])
  finally have f: "rfc_absorb ?h 0 msg =
      rfc_F (bs_h st) (take (bs_buflen st) (bs_buf st) @ replicate (64 - bs_buflen st) 0) (64 * n + bs_buflen st) True"
    using l n(5) by simp
  define st1 where "st1 = (blake2s_set_lastblock st)\<lparr>bs_buf :=
      memcpy_at (bs_buf st) (bs_buflen st) (replicate (64 - bs_buflen st) 0)\<rparr>"
  have buf: "bs_buf st1 = take (bs_buflen st) (bs_buf st) @ replicate (64 - bs_buflen st) 0"
    using n by (simp add: st1_def memcpy_at_def)
  have "blake2s_compress st1 (bs_buf st1) 1 (of_nat (bs_buflen st)) =
      st1\<lparr>bs_t := ctr (64 * n + bs_buflen st),
          bs_h := rfc_F (bs_h st) (bs_buf st1) (64 * n + bs_buflen st) True\<rparr>"
    using compress_block_F [of st1 "64 * n" "bs_buflen st" True "bs_buf st1"] n buf
    by (simp add: st1_def blake2s_set_lastblock_def)
  then show ?thesis
    using n f buf
    by (simp add: blake2s_final_def rfc_blake2s_def Let_def st1_def blake2s_set_lastblock_def
        blake2s_init_def blake2s_init_param_def del: blake2s_compress.simps One_nat_def)
qed

section \<open>Streaming hashes\<close>

text \<open>
  The interface the seed program relies on: a state represents the message streamed so far.
\<close>

locale stream_hash =
  fixes rep :: "'s \<Rightarrow> 'b list \<Rightarrow> bool" and init :: 's and update :: "'s \<Rightarrow> 'b list \<Rightarrow> 's"
    and final :: "'s \<Rightarrow> 'd" and hash :: "'b list \<Rightarrow> 'd"
  assumes rep_init: "rep init []"
    and rep_update: "rep s m \<Longrightarrow> rep (update s c) (m @ c)"
    and rep_final: "rep s m \<Longrightarrow> final s = hash m"
begin

lemma rep_foldl: "rep s m \<Longrightarrow> rep (foldl update s cs) (m @ concat cs)"
proof (induction cs arbitrary: s m)
  case (Cons c cs)
  from Cons.IH [OF rep_update [OF Cons.prems]] show ?case by simp
qed simp

lemma final_foldl: "final (foldl update init cs) = hash (concat cs)"
  using rep_foldl [OF rep_init] rep_final by fastforce

end

interpretation b2s: stream_hash "blake2s_rep outlen" "blake2s_init outlen" blake2s_update blake2s_final
    "rfc_blake2s outlen" for outlen
  by unfold_locales (rule blake2s_rep_init blake2s_rep_update blake2s_rep_final | assumption)+

text \<open>
  C4: Whatever chunks a message is fed in, of any sizes, \<open>blake2s_init\<close>, the updates and
  \<open>blake2s_final\<close> compute the hash that RFC 7693 defines for the whole message: no byte is lost
  or compressed twice at a block boundary, the byte counter carries between its two words, and
  exactly the last block is compressed with the final flag and zero padding.
\<close>

theorem blake2s_streaming:
  "blake2s_final (foldl blake2s_update (blake2s_init outlen) chunks) = rfc_blake2s outlen (concat chunks)"
  by (rule b2s.final_foldl)

end
