(* ===== verification/Blake2s_Vector.thy ===== *)
theory Blake2s_Vector
  imports Blake2s
begin

unbundle bit_operations_syntax

text \<open>
  The test vector of RFC 7693, appendix B, for the model of \<open>Blake2s\<close>. It pins the parts the
  streaming theorem is parametric in: the mixing function, the rounds and the tables.
\<close>

section \<open>The rounds for the message abc\<close>

text \<open>
  The states \<open>v\<close> between the ten rounds for the message \<open>abc\<close>; each round is evaluated by
  the simplifier, one assignment at a time.
\<close>

lemma ror32_consts:
  "ror32 w 16 = drop_bit 16 w OR push_bit 16 w" "ror32 w 12 = drop_bit 12 w OR push_bit 20 w"
  "ror32 w 8 = drop_bit 8 w OR push_bit 24 w" "ror32 w 7 = drop_bit 7 w OR push_bit 25 w"
  by (simp_all add: ror32_def unat_and_31 unat_minus_mod_32)

lemmas round_eval = ROUND_def G_def Let_def ror32_consts blake2s_sigma_def

definition abc_m :: "u32 list" where
  "abc_m = [0x00636261, 0, 0, 0, 0, 0, 0, 0, 0, 0, 0, 0, 0, 0, 0, 0]"

lemma abc_round0:
  "ROUND abc_m 0
    [0x6B08E647, 0xBB67AE85, 0x3C6EF372, 0xA54FF53A, 0x510E527F, 0x9B05688C, 0x1F83D9AB, 0x5BE0CD19,
      0x6A09E667, 0xBB67AE85, 0x3C6EF372, 0xA54FF53A, 0x510E527C, 0x9B05688C, 0xE07C2654, 0x5BE0CD19] =
    [0x16A3242E, 0xD7B5E238, 0xCE8CE24B, 0x927AEDE1, 0xA7B430D9, 0x93A4A14E, 0xA44E7C31, 0x41D4759B,
      0x95BF33D3, 0x9A99C181, 0x608A3A6B, 0xB666383E, 0x7A8DD50F, 0xBE378ED7, 0x353D1EE6, 0x3BB44C6B]"
  by (simp add: abc_m_def round_eval cong: let_weak_cong)

lemma abc_round1:
  "ROUND abc_m 1
    [0x16A3242E, 0xD7B5E238, 0xCE8CE24B, 0x927AEDE1, 0xA7B430D9, 0x93A4A14E, 0xA44E7C31, 0x41D4759B,
      0x95BF33D3, 0x9A99C181, 0x608A3A6B, 0xB666383E, 0x7A8DD50F, 0xBE378ED7, 0x353D1EE6, 0x3BB44C6B] =
    [0x3AE30FE3, 0x0982A96B, 0xE88185B4, 0x3E339B16, 0xF24338CD, 0x0E66D326, 0xE005ED0C, 0xD591A277,
      0x180B1F3A, 0xFCF43914, 0x30DB62D6, 0x4847831C, 0x7F00C58E, 0xFB847886, 0xC544E836, 0x524AB0E2]"
  by (simp add: abc_m_def round_eval cong: let_weak_cong)

lemma abc_round2:
  "ROUND abc_m 2
    [0x3AE30FE3, 0x0982A96B, 0xE88185B4, 0x3E339B16, 0xF24338CD, 0x0E66D326, 0xE005ED0C, 0xD591A277,
      0x180B1F3A, 0xFCF43914, 0x30DB62D6, 0x4847831C, 0x7F00C58E, 0xFB847886, 0xC544E836, 0x524AB0E2] =
    [0x7A3BE783, 0x997546C1, 0xD45246DF, 0xEDB5F821, 0x7F98A742, 0x10E864E2, 0xD4AB70D0, 0xC63CB1AB,
      0x6038DA9E, 0x414594B0, 0xF2C218B5, 0x8DA0DCB7, 0xD7CD7AF5, 0xAB4909DF, 0x85031A52, 0xC4EDFC98]"
  by (simp add: abc_m_def round_eval cong: let_weak_cong)

lemma abc_round3:
  "ROUND abc_m 3
    [0x7A3BE783, 0x997546C1, 0xD45246DF, 0xEDB5F821, 0x7F98A742, 0x10E864E2, 0xD4AB70D0, 0xC63CB1AB,
      0x6038DA9E, 0x414594B0, 0xF2C218B5, 0x8DA0DCB7, 0xD7CD7AF5, 0xAB4909DF, 0x85031A52, 0xC4EDFC98] =
    [0x2A8B8CB7, 0x1ACA82B2, 0x14045D7F, 0xCC7258ED, 0x383CF67C, 0xE090E7F9, 0x3025D276, 0x57D04DE4,
      0x994BACF0, 0xF0982759, 0xF17EE300, 0xD48FC2D5, 0xDC854C10, 0x523898A9, 0xC03A0F89, 0x47D6CD88]"
  by (simp add: abc_m_def round_eval cong: let_weak_cong)

lemma abc_round4:
  "ROUND abc_m 4
    [0x2A8B8CB7, 0x1ACA82B2, 0x14045D7F, 0xCC7258ED, 0x383CF67C, 0xE090E7F9, 0x3025D276, 0x57D04DE4,
      0x994BACF0, 0xF0982759, 0xF17EE300, 0xD48FC2D5, 0xDC854C10, 0x523898A9, 0xC03A0F89, 0x47D6CD88] =
    [0xC4AA2DDB, 0x111343A3, 0xD54A700A, 0x574A00A9, 0x857D5A48, 0xB1E11989, 0x6F5C52DF, 0xDD2C53A3,
      0x678E5F8E, 0x9718D4E9, 0x622CB684, 0x92976076, 0x0E41A517, 0x359DC2BE, 0x87A87DDD, 0x643F9CEC]"
  by (simp add: abc_m_def round_eval cong: let_weak_cong)

lemma abc_round5:
  "ROUND abc_m 5
    [0xC4AA2DDB, 0x111343A3, 0xD54A700A, 0x574A00A9, 0x857D5A48, 0xB1E11989, 0x6F5C52DF, 0xDD2C53A3,
      0x678E5F8E, 0x9718D4E9, 0x622CB684, 0x92976076, 0x0E41A517, 0x359DC2BE, 0x87A87DDD, 0x643F9CEC] =
    [0x3453921C, 0xD7595EE1, 0x592E776D, 0x3ED6A974, 0x4D997CB3, 0xDE9212C3, 0x35ADF5C9, 0x9916FD65,
      0x96562E89, 0x4EAD0792, 0xEBFC2712, 0x2385F5B2, 0xF34600FB, 0xD7BC20FB, 0xEB452A7B, 0xECE1AA40]"
  by (simp add: abc_m_def round_eval cong: let_weak_cong)

lemma abc_round6:
  "ROUND abc_m 6
    [0x3453921C, 0xD7595EE1, 0x592E776D, 0x3ED6A974, 0x4D997CB3, 0xDE9212C3, 0x35ADF5C9, 0x9916FD65,
      0x96562E89, 0x4EAD0792, 0xEBFC2712, 0x2385F5B2, 0xF34600FB, 0xD7BC20FB, 0xEB452A7B, 0xECE1AA40] =
    [0xBE851B2D, 0xA85F6358, 0x81E6FC3B, 0x0BB28000, 0xFA55A33A, 0x87BE1FAD, 0x4119370F, 0x1E2261AA,
      0xA1318FD3, 0xF4329816, 0x071783C2, 0x6E536A8D, 0x9A81A601, 0xE7EC80F1, 0xACC09948, 0xF849A584]"
  by (simp add: abc_m_def round_eval cong: let_weak_cong)

lemma abc_round7:
  "ROUND abc_m 7
    [0xBE851B2D, 0xA85F6358, 0x81E6FC3B, 0x0BB28000, 0xFA55A33A, 0x87BE1FAD, 0x4119370F, 0x1E2261AA,
      0xA1318FD3, 0xF4329816, 0x071783C2, 0x6E536A8D, 0x9A81A601, 0xE7EC80F1, 0xACC09948, 0xF849A584] =
    [0x07E5B85A, 0x069CC164, 0xF9DE3141, 0xA56F4680, 0x9E440AD2, 0x9AB659EA, 0x3C84B971, 0x21DBD9CF,
      0x46699F8C, 0x765257EC, 0xAF1D998C, 0x75E4C3B6, 0x523878DC, 0x30715015, 0x397FEE81, 0x4F1FA799]"
  by (simp add: abc_m_def round_eval cong: let_weak_cong)

lemma abc_round8:
  "ROUND abc_m 8
    [0x07E5B85A, 0x069CC164, 0xF9DE3141, 0xA56F4680, 0x9E440AD2, 0x9AB659EA, 0x3C84B971, 0x21DBD9CF,
      0x46699F8C, 0x765257EC, 0xAF1D998C, 0x75E4C3B6, 0x523878DC, 0x30715015, 0x397FEE81, 0x4F1FA799] =
    [0x435148C4, 0xA5AA2D11, 0x4B354173, 0xD543BC9E, 0xBDA2591C, 0xBF1D2569, 0x4FCB3120, 0x707ADA48,
      0x565B3FDE, 0x32C9C916, 0xEAF4A1AB, 0xB1018F28, 0x8078D978, 0x68ADE4B5, 0x9778FDA3, 0x2863B92E]"
  by (simp add: abc_m_def round_eval cong: let_weak_cong)

lemma abc_round9:
  "ROUND abc_m 9
    [0x435148C4, 0xA5AA2D11, 0x4B354173, 0xD543BC9E, 0xBDA2591C, 0xBF1D2569, 0x4FCB3120, 0x707ADA48,
      0x565B3FDE, 0x32C9C916, 0xEAF4A1AB, 0xB1018F28, 0x8078D978, 0x68ADE4B5, 0x9778FDA3, 0x2863B92E] =
    [0xD9C994AA, 0xCFEC3AA6, 0x700D0AB2, 0x2C38670E, 0xAF6A1F66, 0x1D023EF3, 0x1D9EC27D, 0x945357A5,
      0x3E9FFEBD, 0x969FE811, 0xEF485E21, 0xA632797A, 0xDEEF082E, 0xAF3D80E1, 0x4E86829B, 0x4DEAFD3A]"
  by (simp add: abc_m_def round_eval cong: let_weak_cong)

lemmas abc_rounds = abc_round0 abc_round1 abc_round2 abc_round3 abc_round4 abc_round5 abc_round6 abc_round7
  abc_round8 abc_round9

lemma abc_block:
  "le32_to_cpu_array ([0x61, 0x62, 0x63] @ replicate 61 0) 16 = abc_m"
  by code_simp

lemma abc_start:
  "take 8 (blake2s_iv[0 := blake2s_iv ! 0 XOR (0x01010000 OR of_nat 32)]) @ take 4 blake2s_iv @
     [blake2s_iv ! 4 XOR of_nat 3, blake2s_iv ! 5 XOR of_nat (3 div 2 ^ 32),
      blake2s_iv ! 6 XOR (if True then - 1 else 0), blake2s_iv ! 7] =
    [0x6B08E647, 0xBB67AE85, 0x3C6EF372, 0xA54FF53A, 0x510E527F, 0x9B05688C, 0x1F83D9AB, 0x5BE0CD19,
      0x6A09E667, 0xBB67AE85, 0x3C6EF372, 0xA54FF53A, 0x510E527C, 0x9B05688C, 0xE07C2654, 0x5BE0CD19]"
  by (simp add: blake2s_iv_def) code_simp?

lemma abc_ROUNDS:
  "ROUNDS abc_m
    [0x6B08E647, 0xBB67AE85, 0x3C6EF372, 0xA54FF53A, 0x510E527F, 0x9B05688C, 0x1F83D9AB, 0x5BE0CD19,
      0x6A09E667, 0xBB67AE85, 0x3C6EF372, 0xA54FF53A, 0x510E527C, 0x9B05688C, 0xE07C2654, 0x5BE0CD19] =
    [0xD9C994AA, 0xCFEC3AA6, 0x700D0AB2, 0x2C38670E, 0xAF6A1F66, 0x1D023EF3, 0x1D9EC27D, 0x945357A5,
      0x3E9FFEBD, 0x969FE811, 0xEF485E21, 0xA632797A, 0xDEEF082E, 0xAF3D80E1, 0x4E86829B, 0x4DEAFD3A]"
  unfolding ROUNDS_def fold_simps abc_rounds ..

lemma abc_xor:
  "map (\<lambda>i. (blake2s_iv[0 := blake2s_iv ! 0 XOR (0x01010000 OR of_nat 32)]) ! i XOR
      ([0xD9C994AA, 0xCFEC3AA6, 0x700D0AB2, 0x2C38670E, 0xAF6A1F66, 0x1D023EF3, 0x1D9EC27D, 0x945357A5,
        0x3E9FFEBD, 0x969FE811, 0xEF485E21, 0xA632797A, 0xDEEF082E, 0xAF3D80E1, 0x4E86829B, 0x4DEAFD3A] ! i XOR
       [0xD9C994AA, 0xCFEC3AA6, 0x700D0AB2, 0x2C38670E, 0xAF6A1F66, 0x1D023EF3, 0x1D9EC27D, 0x945357A5,
        0x3E9FFEBD, 0x969FE811, 0xEF485E21, 0xA632797A, 0xDEEF082E, 0xAF3D80E1, 0x4E86829B, 0x4DEAFD3A] ! (i + 8)))
     [0..<8] =
    [0x8C5E8C50, 0xE2147C32, 0xA32BA7E1, 0x2F45EB4E, 0x208B4537, 0x293AD69E, 0x4C9B994D, 0x82596786]"
  by code_simp

lemma abc_F:
  "rfc_F (blake2s_iv[0 := blake2s_iv ! 0 XOR (0x01010000 OR of_nat 32)]) ([0x61, 0x62, 0x63] @ replicate 61 0) 3 True =
    [0x8C5E8C50, 0xE2147C32, 0xA32BA7E1, 0x2F45EB4E, 0x208B4537, 0x293AD69E, 0x4C9B994D, 0x82596786]"
  by (simp only: rfc_F_def abc_block abc_start abc_ROUNDS Let_def abc_xor)


end
