(* ===== verification/SeedRng.thy ===== *)
theory SeedRng
  imports Blake2s
begin

unbundle bit_operations_syntax

text \<open>
  The seed program, the part of \<^verbatim>\<open>src/early/helpers/seedrng.cc\<close> after the hash function: the loops
  around \<open>getrandom\<close>, \<open>read\<close> and \<open>write\<close>, the length of the new seed, reading a fresh seed,
  feeding the kernel from the saved seed files, and \<open>main\<close>.

  The operating system is the record \<open>sr_env\<close>; its answers may depend on the trace of the
  calls made so far, so that no two calls need answer alike. A file descriptor is the path
  it was opened with. The loops have fuel, the number of calls they may make: \<open>None\<close> is a
  loop that has not ended. Messages on the standard streams and \<open>close\<close> are left out.
\<close>

section \<open>The operating system\<close>

datatype sr_call =
    SrMkdir
  | SrFlock
  | SrRead string nat
  | SrUnlink string
  | SrFsyncDir
  | SrAddEntropy nat "u8 list"
  | SrGetrandom bool nat
  | SrCreate string
  | SrWrite "u8 list"
  | SrFsync
  | SrRename string string

text \<open>
  \<open>sr_sys\<close> is 0 or the error number of a call. \<open>sr_data\<close> are the bytes \<open>read\<close> or \<open>getrandom\<close>
  delivers and \<open>sr_wrote\<close> is the number of bytes \<open>write\<close> takes, or an error number; more than
  was asked for is cut off, since the calls never return more. The flag of \<open>SrGetrandom\<close> is
  true for \<open>GRND_INSECURE\<close> and false for \<open>GRND_NONBLOCK\<close>. The clocks are the bytes of the
  \<open>struct timespec\<close>.
\<close>

record sr_env =
  sr_uid :: nat
  sr_realtime :: "u8 list"
  sr_boottime :: "u8 list"
  sr_open :: "sr_call list \<Rightarrow> string \<Rightarrow> int"
  sr_stat :: "sr_call list \<Rightarrow> string \<Rightarrow> ftype option"
  sr_poll :: "sr_call list \<Rightarrow> int"
  sr_sys :: "sr_call list \<Rightarrow> sr_call \<Rightarrow> int"
  sr_data :: "sr_call list \<Rightarrow> sr_call \<Rightarrow> int + u8 list"
  sr_wrote :: "sr_call list \<Rightarrow> sr_call \<Rightarrow> int + nat"

abbreviation (input) SEED_DIR :: string where "SEED_DIR \<equiv> ''/var/lib/seedrng''"
abbreviation (input) CREDITABLE_SEED :: string where "CREDITABLE_SEED \<equiv> ''seed.credit''"
abbreviation (input) NON_CREDITABLE_SEED :: string where "NON_CREDITABLE_SEED \<equiv> ''seed.no-credit''"
abbreviation (input) SKIP_CREDIT :: string where "SKIP_CREDIT \<equiv> ''seed.skip-credit''"
abbreviation (input) MIN_SEED_LEN :: nat where "MIN_SEED_LEN \<equiv> 32"
abbreviation (input) MAX_SEED_LEN :: nat where "MAX_SEED_LEN \<equiv> 512"

section \<open>Complete transfers\<close>

text \<open>
  The three loops retry on \<open>EINTR\<close> (the \<open>continue\<close> of a do-while loop still tests the count),
  stop at any other error and go on with the rest after a partial transfer; only \<open>read_full\<close>
  stops at the end of the file.
\<close>

fun getrandom_full :: "sr_env \<Rightarrow> bool \<Rightarrow> nat \<Rightarrow> sr_call list \<Rightarrow> u8 list \<Rightarrow> nat
    \<Rightarrow> ((int + u8 list) \<times> sr_call list) option" where
  "getrandom_full e insecure 0 l p count = None"
| "getrandom_full e insecure (Suc fuel) l p count =
     (let c = SrGetrandom insecure count in
      case sr_data e l c of
        Inl err \<Rightarrow>
          if err = EINTR then
            (if count = 0 then Some (Inr p, l @ [c]) else getrandom_full e insecure fuel (l @ [c]) p count)
          else Some (Inl err, l @ [c])
      | Inr bs \<Rightarrow>
          let got = take count bs; p = p @ got; count = count - length got
          in if count = 0 then Some (Inr p, l @ [c]) else getrandom_full e insecure fuel (l @ [c]) p count)"

fun read_full :: "sr_env \<Rightarrow> string \<Rightarrow> nat \<Rightarrow> sr_call list \<Rightarrow> u8 list \<Rightarrow> nat
    \<Rightarrow> ((int + u8 list) \<times> sr_call list) option" where
  "read_full e fd 0 l p count = None"
| "read_full e fd (Suc fuel) l p count =
     (let c = SrRead fd count in
      case sr_data e l c of
        Inl err \<Rightarrow>
          if err = EINTR then
            (if count = 0 then Some (Inr p, l @ [c]) else read_full e fd fuel (l @ [c]) p count)
          else Some (Inl err, l @ [c])
      | Inr bs \<Rightarrow>
          let got = take count bs
          in if got = [] then Some (Inr p, l @ [c])
             else
               let p = p @ got; count = count - length got
               in if count = 0 then Some (Inr p, l @ [c]) else read_full e fd fuel (l @ [c]) p count)"

fun write_full :: "sr_env \<Rightarrow> nat \<Rightarrow> sr_call list \<Rightarrow> nat \<Rightarrow> u8 list
    \<Rightarrow> ((int + nat) \<times> sr_call list) option" where
  "write_full e 0 l ttl p = None"
| "write_full e (Suc fuel) l ttl p =
     (let c = SrWrite p in
      case sr_wrote e l c of
        Inl err \<Rightarrow>
          if err = EINTR then
            (if p = [] then Some (Inr ttl, l @ [c]) else write_full e fuel (l @ [c]) ttl p)
          else Some (Inl err, l @ [c])
      | Inr n \<Rightarrow>
          let ret = min n (length p); ttl = ttl + ret; p = drop ret p
          in if p = [] then Some (Inr ttl, l @ [c]) else write_full e fuel (l @ [c]) ttl p)"

section \<open>The new seed\<close>

text \<open>
  \<open>/proc/sys/kernel/random/poolsize\<close> is read into a zeroed buffer of 11 bytes, at most 10 of
  them filled. The sum in \<open>DIV_ROUND_UP\<close> is of type \<open>unsigned long\<close>.
\<close>

definition determine_optimal_seed_len :: "sr_env \<Rightarrow> nat \<Rightarrow> sr_call list \<Rightarrow> (nat \<times> sr_call list) option" where
  "determine_optimal_seed_len e fuel l =
     (let path = ''/proc/sys/kernel/random/poolsize'';
          clamp = (\<lambda>ret. if ret < MIN_SEED_LEN then MIN_SEED_LEN
                       else if ret > MAX_SEED_LEN then MAX_SEED_LEN else ret)
      in if sr_open e l path \<noteq> 0 then Some (clamp MIN_SEED_LEN, l)
         else do {
           (r, l) \<leftarrow> read_full e path fuel l [] 10;
           case r of
             Inl _ \<Rightarrow> Some (clamp MIN_SEED_LEN, l)
           | Inr bs \<Rightarrow>
               let str = cstr (map (\<lambda>b. char_of (unat b)) bs @ [NUL])
               in Some (clamp ((fst (strtoull str) + 7) mod 2 ^ 64 div 8), l)
         })"

text \<open>
  \<open>read_new_seed\<close>: the seed, or \<open>None\<close> when the function returns a negative value, and
  \<open>*is_creditable\<close>. A short read of \<open>/dev/urandom\<close> is an error whatever \<open>errno\<close> holds.
\<close>

definition full :: "int + u8 list \<Rightarrow> nat \<Rightarrow> bool" where
  "full r len = (case r of Inl _ \<Rightarrow> False | Inr bs \<Rightarrow> length bs = len)"

definition read_urandom :: "sr_env \<Rightarrow> nat \<Rightarrow> sr_call list \<Rightarrow> nat \<Rightarrow> (u8 list option \<times> sr_call list) option" where
  "read_urandom e fuel l len =
     (if sr_open e l ''/dev/urandom'' \<noteq> 0 then Some (None, l)
      else do {
        (r, l) \<leftarrow> read_full e ''/dev/urandom'' fuel l [] len;
        Some (if full r len then Some (projr r) else None, l)
      })"

definition read_new_seed :: "sr_env \<Rightarrow> nat \<Rightarrow> sr_call list \<Rightarrow> nat
    \<Rightarrow> (u8 list option \<times> bool \<times> sr_call list) option" where
  "read_new_seed e fuel l len = do {
     (r, l) \<leftarrow> getrandom_full e False fuel l [] len;
     if full r len then Some (Some (projr r), True, l)
     else if r = Inl ENOSYS then
       (if sr_open e l ''/dev/random'' \<noteq> 0 then Some (None, False, l)
        else do {
          let is_creditable = (sr_poll e l = 1);
          (s, l) \<leftarrow> read_urandom e fuel l len;
          Some (s, is_creditable, l)
        })
     else do {
       (r, l) \<leftarrow> getrandom_full e True fuel l [] len;
       if full r len then Some (Some (projr r), False, l)
       else do {
         (s, l) \<leftarrow> read_urandom e fuel l len;
         Some (s, False, l)
       }
     }
   }"

section \<open>Seeding\<close>

definition seed_rng :: "sr_env \<Rightarrow> sr_call list \<Rightarrow> u8 list \<Rightarrow> bool \<Rightarrow> bool \<times> sr_call list" where
  "seed_rng e l seed credit =
     (let entropy_count = (if credit then length seed * 8 else 0)
      in if length seed > MAX_SEED_LEN then (False, l)
         else if sr_open e l ''/dev/urandom'' \<noteq> 0 then (False, l)
         else let c = SrAddEntropy entropy_count seed
              in (sr_sys e l c = 0, l @ [c]))"

text \<open>A \<open>size_t\<close> or \<open>ssize_t\<close> in memory, eight bytes in little-endian order.\<close>

definition size_bytes :: "nat \<Rightarrow> u8 list" where
  "size_bytes n = map (\<lambda>i. of_nat (n div 256 ^ i)) [0..<8]"

text \<open>The result is whether the function returned 0.\<close>

definition seed_from_file_if_exists :: "sr_env \<Rightarrow> nat \<Rightarrow> string \<Rightarrow> bool \<Rightarrow> blake2s_state \<Rightarrow> sr_call list
    \<Rightarrow> (bool \<times> blake2s_state \<times> sr_call list) option" where
  "seed_from_file_if_exists e fuel filename credit hash l =
     (let err = sr_open e l filename
      in if err = ENOENT then Some (True, hash, l)
         else if err \<noteq> 0 then Some (False, hash, l)
         else do {
           (r, l) \<leftarrow> read_full e filename fuel l [] MAX_SEED_LEN;
           case r of
             Inl _ \<Rightarrow> Some (False, hash, l)
           | Inr seed \<Rightarrow>
               let unlinked = (sr_sys e l (SrUnlink filename) = 0);
                   l = l @ [SrUnlink filename];
                   synced = (unlinked \<and> sr_sys e l SrFsyncDir = 0);
                   l = (if unlinked then l @ [SrFsyncDir] else l)
               in if \<not> synced \<and> seed \<noteq> [] then Some (False, hash, l)
                  else if seed = [] then Some (True, hash, l)
                  else
                    let hash = blake2s_update hash (size_bytes (length seed));
                        hash = blake2s_update hash seed;
                        (ok, l) = seed_rng e l seed credit
                    in Some (ok, hash, l)
         })"

definition skip_credit :: "sr_env \<Rightarrow> sr_call list \<Rightarrow> bool" where
  "skip_credit e l = (case sr_stat e l SKIP_CREDIT of None \<Rightarrow> False | Some k \<Rightarrow> k = S_REG)"

section \<open>The program\<close>

definition str_bytes :: "string \<Rightarrow> u8 list" where
  "str_bytes s = map (\<lambda>c. of_nat (of_char c)) s"

definition strncpy_bytes :: "string \<Rightarrow> nat \<Rightarrow> u8 list" where
  "strncpy_bytes s n = take n (str_bytes s) @ replicate (n - length s) 0"

abbreviation (input) seedrng_prefix :: string where
  "seedrng_prefix \<equiv> ''SeedRNG v1 Old+New Prefix''"
abbreviation (input) seedrng_failure :: string where
  "seedrng_failure \<equiv> ''SeedRNG v1 No New Seed Failure''"

text \<open>
  The last part of \<open>main\<close>: the new seed goes to the non-creditable name first and is renamed
  only once it is on disk. The result has the bits of the exit status.
\<close>

definition save_seed :: "sr_env \<Rightarrow> nat \<Rightarrow> sr_call list \<Rightarrow> u8 list \<Rightarrow> bool \<Rightarrow> (nat \<times> sr_call list) option" where
  "save_seed e fuel l new_seed creditable =
     (let c = SrCreate NON_CREDITABLE_SEED
      in if sr_sys e l c \<noteq> 0 then Some (16, l @ [c])
         else do {
           (r, l) \<leftarrow> write_full e fuel (l @ [c]) 0 new_seed;
           if r \<noteq> Inr (length new_seed) then Some (32, l)
           else if sr_sys e l SrFsync \<noteq> 0 then Some (32, l @ [SrFsync])
           else
             let l = l @ [SrFsync]; c = SrRename NON_CREDITABLE_SEED CREDITABLE_SEED
             in if creditable then Some (if sr_sys e l c \<noteq> 0 then 64 else 0, l @ [c])
                else Some (0, l)
         })"

text \<open>
  The new seed of length \<open>new_seed_len\<close>, with the failure string in place of fresh random
  bytes, and then with the hash over its last 32 bytes.
\<close>

definition make_seed :: "u8 list option \<Rightarrow> blake2s_state \<Rightarrow> u8 list" where
  "make_seed fresh hash =
     (let new_seed = (case fresh of Some s \<Rightarrow> s | None \<Rightarrow> strncpy_bytes seedrng_failure BLAKE2S_HASH_LEN);
          hash = blake2s_update hash (size_bytes (length new_seed));
          hash = blake2s_update hash new_seed
      in memcpy_at new_seed (length new_seed - BLAKE2S_HASH_LEN) (blake2s_final hash))"

definition seedrng_main :: "sr_env \<Rightarrow> nat \<Rightarrow> (nat \<times> sr_call list) option" where
  "seedrng_main e fuel =
     (if sr_uid e \<noteq> 0 then Some (1, [])
      else
        let hash = blake2s_init BLAKE2S_HASH_LEN;
            hash = blake2s_update hash (str_bytes seedrng_prefix);
            hash = blake2s_update hash (sr_realtime e);
            hash = blake2s_update hash (sr_boottime e);
            err = sr_sys e [] SrMkdir; l = [SrMkdir]
        in if err \<noteq> 0 \<and> err \<noteq> EEXIST then Some (1, l)
           else if sr_open e l SEED_DIR \<noteq> 0 then Some (1, l)
           else if sr_sys e l SrFlock \<noteq> 0 then Some (1, l @ [SrFlock])
           else do {
             let l = l @ [SrFlock];
             (ok1, hash, l) \<leftarrow> seed_from_file_if_exists e fuel NON_CREDITABLE_SEED False hash l;
             (ok2, hash, l) \<leftarrow> seed_from_file_if_exists e fuel CREDITABLE_SEED (\<not> skip_credit e l) hash l;
             (new_seed_len, l) \<leftarrow> determine_optimal_seed_len e fuel l;
             (fresh, creditable, l) \<leftarrow> read_new_seed e fuel l new_seed_len;
             (r, l) \<leftarrow> save_seed e fuel l (make_seed fresh hash) creditable;
             Some ((if ok1 then 0 else 2) OR (if ok2 then 0 else 4) OR (if fresh \<noteq> None then 0 else 8) OR r, l)
           })"

section \<open>The contract of the transfer loops\<close>

text \<open>
  The loops share one contract. \<open>call r\<close> is the call for the remaining work \<open>r\<close>, \<open>answer\<close> what
  the kernel says to it (an error, or the new accumulator and the new rest), \<open>amount\<close> and
  \<open>left\<close> measure what is done and what is left, and \<open>eof\<close> says whether a call that makes no
  progress ends the loop.
\<close>

locale full_io =
  fixes loop :: "nat \<Rightarrow> 'c list \<Rightarrow> 'a \<Rightarrow> 'r \<Rightarrow> ((int + 'a) \<times> 'c list) option"
    and call :: "'r \<Rightarrow> 'c" and answer :: "'c list \<Rightarrow> 'a \<Rightarrow> 'r \<Rightarrow> int + 'a \<times> 'r"
    and amount :: "'a \<Rightarrow> nat" and left :: "'r \<Rightarrow> nat" and eof :: bool
  assumes loop_0: "loop 0 l p r = None"
    and loop_Suc: "loop (Suc k) l p r =
      (case answer l p r of
         Inl err \<Rightarrow>
           if err = EINTR then (if left r = 0 then Some (Inr p, l @ [call r]) else loop k (l @ [call r]) p r)
           else Some (Inl err, l @ [call r])
       | Inr (p', r') \<Rightarrow>
           if left r' = 0 \<or> eof \<and> left r' = left r then Some (Inr p', l @ [call r])
           else loop k (l @ [call r]) p' r')"
    and answer_amount: "answer l p r = Inr (p', r') \<Longrightarrow> amount p' + left r' = amount p + left r \<and> left r' \<le> left r"
begin

lemma result_amount:
  "loop k l p r = Some (Inr p', l') \<Longrightarrow>
     amount p' \<le> amount p + left r \<and> (\<not> eof \<longrightarrow> amount p' = amount p + left r)"
proof (induction k arbitrary: l p r)
  case (Suc k)
  show ?case
  proof (cases "answer l p r")
    case (Inl err)
    with Suc show ?thesis by (auto simp: loop_Suc split: if_splits)
  next
    case (Inr pr)
    then obtain p1 r1 where a: "answer l p r = Inr (p1, r1)" by (cases pr) auto
    with Suc answer_amount [OF a] show ?thesis by (fastforce simp: loop_Suc split: if_splits)
  qed
qed (simp add: loop_0)

lemma loop_trace: "loop k l p r = Some (x, l') \<Longrightarrow> adds (\<lambda>c. c \<in> range call) l l'"
proof (induction k arbitrary: l p r)
  case (Suc k)
  then have "adds (\<lambda>c. c \<in> range call) (l @ [call r]) l'"
    by (auto simp: loop_Suc split: sum.splits prod.splits if_splits)
  then show ?case by (rule adds_snocD) simp
qed (simp add: loop_0)

text \<open>Enough fuel: from the call number \<open>N\<close> on every call fails for good, ends the loop or makes progress.\<close>

lemma returns:
  assumes settled: "\<And>l p r. N \<le> length l \<Longrightarrow>
      (case answer l p r of Inl err \<Rightarrow> err \<noteq> EINTR
       | Inr (p', r') \<Rightarrow> left r' = 0 \<or> left r' < left r \<or> eof)"
    and fuel: "N - length l + left r < k"
  shows "\<exists>x l'. loop k l p r = Some (x, l')"
  using fuel
proof (induction k arbitrary: l p r)
  case (Suc k)
  have ind: "\<exists>x l'. loop k (l @ [call r]) p' r' = Some (x, l')"
    if "left r' \<le> left r" "N \<le> length l \<Longrightarrow> left r' < left r" for p' r'
    using that Suc.prems by (intro Suc.IH) (cases "N \<le> length l"; simp)
  show ?case
  proof (cases "answer l p r")
    case (Inl err)
    with ind [where r' = r and p' = p] settled [where l = l and p = p and r = r] show ?thesis by (auto simp: loop_Suc)
  next
    case (Inr pr)
    then obtain p1 r1 where a: "answer l p r = Inr (p1, r1)" by (cases pr) auto
    show ?thesis using ind [where r' = r1 and p' = p1] settled [where l = l and p = p and r = r] answer_amount [OF a] a
     by (auto simp: loop_Suc)
  qed
qed simp

end

definition recv :: "('l \<Rightarrow> 'c \<Rightarrow> int + 'b list) \<Rightarrow> (nat \<Rightarrow> 'c) \<Rightarrow> 'l \<Rightarrow> 'b list \<Rightarrow> nat \<Rightarrow> int + 'b list \<times> nat" where
  "recv f call l p n =
     (case f l (call n) of Inl err \<Rightarrow> Inl err | Inr bs \<Rightarrow> Inr (p @ take n bs, n - length (take n bs)))"

definition send :: "sr_env \<Rightarrow> sr_call list \<Rightarrow> nat \<Rightarrow> u8 list \<Rightarrow> int + nat \<times> u8 list" where
  "send e l n p =
     (case sr_wrote e l (SrWrite p) of Inl err \<Rightarrow> Inl err
      | Inr k \<Rightarrow> Inr (n + min k (length p), drop (min k (length p)) p))"

interpretation gr: full_io "getrandom_full e ins" "SrGetrandom ins" "recv (sr_data e) (SrGetrandom ins)"
    length "\<lambda>n. n" False for e ins
  by unfold_locales (auto simp: recv_def Let_def split: sum.splits)

interpretation rd: full_io "read_full e fd" "SrRead fd" "recv (sr_data e) (SrRead fd)"
    length "\<lambda>n. n" True for e fd
proof unfold_locales
  have eq: "r - min (length bs) r = r \<longleftrightarrow> r = 0 \<or> bs = []" for r and bs :: "u8 list"
    by (cases bs; cases r) auto
  show "read_full e fd (Suc k) l p r =
      (case recv (sr_data e) (SrRead fd) l p r of
         Inl err \<Rightarrow>
           if err = EINTR then (if r = 0 then Some (Inr p, l @ [SrRead fd r]) else read_full e fd k (l @ [SrRead fd r]) p r)
           else Some (Inl err, l @ [SrRead fd r])
       | Inr (p', r') \<Rightarrow>
           if r' = 0 \<or> True \<and> r' = r then Some (Inr p', l @ [SrRead fd r])
           else read_full e fd k (l @ [SrRead fd r]) p' r')" for k l p r
    by (cases "sr_data e l (SrRead fd r)") (auto simp add: recv_def Let_def eq)
qed (auto simp: recv_def split: sum.splits)

interpretation wr: full_io "write_full e" SrWrite "send e" "\<lambda>n. n" length False for e
  by unfold_locales (auto simp: send_def Let_def split: sum.splits)

section \<open>When a saved seed is used\<close>

text \<open>
  \<open>used_well e p n bs\<close>: after the trace \<open>p\<close> it is right to add the bytes \<open>bs\<close> to the kernel's
  pool with \<open>n\<close> bits of credit. The seed file was removed and the directory written to disk just
  before, and bits are credited only for the creditable seed and with no request to skip it.
\<close>

definition used_well :: "sr_env \<Rightarrow> sr_call list \<Rightarrow> nat \<Rightarrow> u8 list \<Rightarrow> bool" where
  "used_well e p n bs \<longleftrightarrow>
     0 < length bs \<and> length bs \<le> MAX_SEED_LEN \<and>
     (\<exists>p' f. p = p' @ [SrUnlink f, SrFsyncDir] \<and> sr_sys e p' (SrUnlink f) = 0 \<and>
        sr_sys e (p' @ [SrUnlink f]) SrFsyncDir = 0 \<and>
        (n = 0 \<or>
         n = 8 * length bs \<and> f = CREDITABLE_SEED \<and> (\<exists>p0. prefix p0 p' \<and> \<not> skip_credit e p0)))"

definition seeded_well :: "sr_env \<Rightarrow> sr_call list \<Rightarrow> bool" where
  "seeded_well e l \<longleftrightarrow> (\<forall>p n bs q. l = p @ SrAddEntropy n bs # q \<longrightarrow> used_well e p n bs)"

definition no_entropy :: "sr_call \<Rightarrow> bool" where
  "no_entropy c \<longleftrightarrow> (case c of SrAddEntropy _ _ \<Rightarrow> False | _ \<Rightarrow> True)"

lemma no_entropy_simps [simp]:
  "no_entropy SrMkdir" "no_entropy SrFlock" "no_entropy (SrRead f n)" "no_entropy (SrUnlink f)"
  "no_entropy SrFsyncDir" "no_entropy (SrGetrandom i n)" "no_entropy (SrCreate f)"
  "no_entropy (SrWrite bs)" "no_entropy SrFsync" "no_entropy (SrRename f g)"
  "\<not> no_entropy (SrAddEntropy n bs)"
  by (simp_all add: no_entropy_def)

lemma seeded_well_Nil [simp]: "seeded_well e []"
  by (simp add: seeded_well_def)

lemma seeded_well_snoc [simp]:
  "seeded_well e (l @ [c]) \<longleftrightarrow>
     seeded_well e l \<and> (case c of SrAddEntropy n bs \<Rightarrow> used_well e l n bs | _ \<Rightarrow> True)"
  by (auto simp: seeded_well_def append_eq_append_conv2 append_eq_Cons_conv Cons_eq_append_conv
      split: sr_call.splits) (metis append_Nil2)+

lemma seeded_well_adds: "adds no_entropy l l' \<Longrightarrow> seeded_well e l \<Longrightarrow> seeded_well e l'"
proof -
  have "list_all no_entropy m \<Longrightarrow> seeded_well e l \<Longrightarrow> seeded_well e (l @ m)" for m
    by (induction m rule: rev_induct) (auto simp flip: append_assoc split: sr_call.splits)
  then show "adds no_entropy l l' \<Longrightarrow> seeded_well e l \<Longrightarrow> seeded_well e l'" by (auto simp: adds_def)
qed

lemma gr_no_entropy: "getrandom_full e ins k l p n = Some (x, l') \<Longrightarrow> adds no_entropy l l'"
  by (drule gr.loop_trace, erule adds_mono) auto

lemma rd_no_entropy: "read_full e fd k l p n = Some (x, l') \<Longrightarrow> adds no_entropy l l'"
  by (drule rd.loop_trace, erule adds_mono) auto

lemma wr_no_entropy: "write_full e k l p n = Some (x, l') \<Longrightarrow> adds no_entropy l l'"
  by (drule wr.loop_trace, erule adds_mono) auto

lemma seed_len_no_entropy: "determine_optimal_seed_len e k l = Some (n, l') \<Longrightarrow> adds no_entropy l l'"
  by (auto simp: determine_optimal_seed_len_def Let_def rd_no_entropy split: if_splits bind_splits sum.splits)

lemma urandom_no_entropy: "read_urandom e k l n = Some (s, l') \<Longrightarrow> adds no_entropy l l'"
  by (auto simp: read_urandom_def rd_no_entropy split: if_splits bind_splits)

lemma new_seed_no_entropy: "read_new_seed e k l n = Some (s, c, l') \<Longrightarrow> adds no_entropy l l'"
  unfolding read_new_seed_def
  by (auto split: if_splits bind_splits dest!: gr_no_entropy urandom_no_entropy) (blast intro: adds_trans)+

lemma save_no_entropy: "save_seed e k l s c = Some (r, l') \<Longrightarrow> adds no_entropy l l'"
proof -
  have "adds no_entropy l (m @ n)"
    if "adds no_entropy (l @ [SrCreate NON_CREDITABLE_SEED]) m" "list_all no_entropy n" for m n
    using that by (auto dest!: adds_snocD intro: adds_trans)
  from this this [where n = "[]"]
  show "save_seed e k l s c = Some (r, l') \<Longrightarrow> adds no_entropy l l'"
    by (auto simp: save_seed_def Let_def split: if_splits bind_splits dest!: wr_no_entropy)
qed

lemma read_seed_length:
  assumes "read_full e fd k l [] MAX_SEED_LEN = Some (Inr seed, l')"
  shows "length seed \<le> MAX_SEED_LEN"
  using rd.result_amount [OF assms] by simp

lemma seeded_well_more [simp]:
  "seeded_well e (l @ [c, d]) \<longleftrightarrow>
     seeded_well e (l @ [c]) \<and> (case d of SrAddEntropy n bs \<Rightarrow> used_well e (l @ [c]) n bs | _ \<Rightarrow> True)"
  "seeded_well e (l @ [c, d, x]) \<longleftrightarrow>
     seeded_well e (l @ [c, d]) \<and> (case x of SrAddEntropy n bs \<Rightarrow> used_well e (l @ [c, d]) n bs | _ \<Rightarrow> True)"
  using seeded_well_snoc [of e "l @ [c]" d] seeded_well_snoc [of e "l @ [c, d]" x] by simp_all

lemma seed_from_file_seeded_well:
  assumes call: "seed_from_file_if_exists e k f credit h l = Some (ok, h', l')" and pre: "seeded_well e l"
    and credit: "credit \<Longrightarrow> f = CREDITABLE_SEED \<and> \<not> skip_credit e l"
  shows "seeded_well e l'"
proof (cases "sr_open e l f = 0")
  case True
  with call obtain r m where rd: "read_full e f k l [] MAX_SEED_LEN = Some (r, m)"
    by (auto simp: seed_from_file_if_exists_def split: bind_splits)
  from rd_no_entropy [OF rd] pre have m: "seeded_well e m" "prefix l m"
    by (auto intro: seeded_well_adds adds_prefix)
  show ?thesis
  proof (cases r)
    case (Inl err)
    with call rd True m show ?thesis by (simp add: seed_from_file_if_exists_def)
  next
    case (Inr seed)
    with call rd True m credit show ?thesis
      by (auto simp: seed_from_file_if_exists_def Let_def seed_rng_def used_well_def split: if_splits)
  qed
qed (use call pre in \<open>auto simp: seed_from_file_if_exists_def Let_def split: if_splits\<close>)

text \<open>A run of the program either stops early or goes through all its stages.\<close>

definition hash_prefix :: "sr_env \<Rightarrow> blake2s_state" where
  "hash_prefix e = blake2s_update (blake2s_update (blake2s_update (blake2s_init BLAKE2S_HASH_LEN)
     (str_bytes seedrng_prefix)) (sr_realtime e)) (sr_boottime e)"

lemma seedrng_main_stages:
  assumes "seedrng_main e fuel = Some (status, l)"
  obtains (early) "status = 1" "l = [] \<or> l = [SrMkdir] \<or> l = [SrMkdir, SrFlock]"
  | (full) ok1 h1 l1 ok2 h2 l2 len l3 fresh creditable l4 r where
    "seed_from_file_if_exists e fuel NON_CREDITABLE_SEED False (hash_prefix e) [SrMkdir, SrFlock] = Some (ok1, h1, l1)"
    "seed_from_file_if_exists e fuel CREDITABLE_SEED (\<not> skip_credit e l1) h1 l1 = Some (ok2, h2, l2)"
    "determine_optimal_seed_len e fuel l2 = Some (len, l3)"
    "read_new_seed e fuel l3 len = Some (fresh, creditable, l4)"
    "save_seed e fuel l4 (make_seed fresh h2) creditable = Some (r, l)"
    "status = (if ok1 then 0 else 2) OR (if ok2 then 0 else 4) OR (if fresh \<noteq> None then 0 else 8) OR r"
proof (cases "sr_uid e \<noteq> 0 \<or> sr_sys e [] SrMkdir \<notin> {0, EEXIST} \<or> sr_open e [SrMkdir] SEED_DIR \<noteq> 0
    \<or> sr_sys e [SrMkdir] SrFlock \<noteq> 0")
  case True
  with assms early show ?thesis by (simp add: seedrng_main_def Let_def split: if_splits)
next
  case False
  with assms full show ?thesis
    by (auto simp: seedrng_main_def hash_prefix_def [symmetric] Let_def split: bind_splits simp del: split_paired_All)
qed


section \<open>The new seed is on disk\<close>

text \<open>The bytes the calls of a trace \<open>m\<close>, made after \<open>l\<close>, wrote to the file.\<close>

fun accepted :: "sr_env \<Rightarrow> sr_call list \<Rightarrow> sr_call list \<Rightarrow> u8 list" where
  "accepted e l [] = []"
| "accepted e l (c # m) =
     (case c of SrWrite p \<Rightarrow> (case sr_wrote e l c of Inl _ \<Rightarrow> [] | Inr n \<Rightarrow> take n p) | _ \<Rightarrow> [])
     @ accepted e (l @ [c]) m"

lemma write_full_accepted:
  assumes "write_full e k l n p = Some (r, l')"
  obtains m where "l' = l @ m" "prefix (accepted e l m) p" "\<And>t. r = Inr t \<Longrightarrow> accepted e l m = p"
  using assms
proof (induction k arbitrary: l n p thesis)
  case (Suc k)
  show ?case
  proof (cases "sr_wrote e l (SrWrite p)")
    case (Inl err)
    show ?thesis
    proof (cases "err = EINTR \<and> p \<noteq> []")
      case True
      with Suc.prems(2) Inl have "write_full e k (l @ [SrWrite p]) n p = Some (r, l')" by simp
      from Suc.IH [OF _ this] obtain m where "l' = (l @ [SrWrite p]) @ m"
        "prefix (accepted e (l @ [SrWrite p]) m) p" "\<And>t. r = Inr t \<Longrightarrow> accepted e (l @ [SrWrite p]) m = p"
        by blast
      then show ?thesis using Inl by (intro Suc.prems(1) [of "SrWrite p # m"]) auto
    next
      case False
      with Suc.prems(2) Inl have "l' = l @ [SrWrite p]" "\<And>t. r = Inr t \<Longrightarrow> p = []"
        by (auto simp: Let_def split: if_splits)
      with Inl show ?thesis by (intro Suc.prems(1) [of "[SrWrite p]"]) auto
    qed
  next
    case (Inr j)
    show ?thesis
    proof (cases "drop (min j (length p)) p = []")
      case True
      with Suc.prems Inr show ?thesis
        by (auto intro!: Suc.prems(1) [of "[SrWrite p]"] take_is_prefix simp: Let_def)
    next
      case False
      with Suc.prems(2) Inr have "write_full e k (l @ [SrWrite p]) (n + j) (drop j p) = Some (r, l')"
        by (simp add: Let_def min_def split: if_splits)
      from Suc.IH [OF _ this] obtain m where m: "l' = (l @ [SrWrite p]) @ m"
        "prefix (accepted e (l @ [SrWrite p]) m) (drop j p)"
        "\<And>t. r = Inr t \<Longrightarrow> accepted e (l @ [SrWrite p]) m = drop j p"
        by blast
      have "prefix (take j p @ accepted e (l @ [SrWrite p]) m) (take j p @ drop j p)"
        using m(2) by (simp only: same_prefix_prefix)
      then have "prefix (take j p @ accepted e (l @ [SrWrite p]) m) p" by simp
      with m Inr show ?thesis by (intro Suc.prems(1) [of "SrWrite p # m"]) auto
    qed
  qed
qed simp

lemma new_seed_fresh:
  assumes "read_new_seed e k l n = Some (Some s, c, l')"
  shows "length s = n"
  using assms
  by (auto simp: read_new_seed_def read_urandom_def full_def split: if_splits bind_splits sum.splits)

lemma seed_len_bounds:
  "determine_optimal_seed_len e k l = Some (n, l') \<Longrightarrow> MIN_SEED_LEN \<le> n \<and> n \<le> MAX_SEED_LEN"
  by (auto simp: determine_optimal_seed_len_def Let_def split: if_splits bind_splits sum.splits)

lemma seed_from_file_rep:
  assumes "seed_from_file_if_exists e k f c h l = Some (ok, h', l')" and "\<exists>m. blake2s_rep 32 h m"
  shows "\<exists>m. blake2s_rep 32 h' m"
  using assms
  by (auto simp: seed_from_file_if_exists_def Let_def split: if_splits bind_splits sum.splits prod.splits)
    (blast intro: blake2s_rep_update)+

lemma hash_prefix_rep: "\<exists>m. blake2s_rep 32 (hash_prefix e) m"
  unfolding hash_prefix_def by (blast intro: blake2s_rep_update blake2s_rep_init)

lemma length_rfc_blake2s: "length (rfc_blake2s 32 m) = 32"
proof -
  have F: "length (rfc_F h b t fin) = 8" for h b t fin by (simp add: rfc_F_def Let_def)
  have "length (rfc_absorb h t m) = 8" for h t
    by (induction h t m rule: rfc_absorb.induct) (simp add: rfc_absorb.simps F)
  moreover have "length (cpu_to_le32_array ws) = 4 * length ws" for ws
    by (induction ws) (auto simp: cpu_to_le32_array_def le_bytes_def)
  ultimately show ?thesis by (simp add: rfc_blake2s_def)
qed

lemma make_seed_hash:
  assumes "blake2s_rep 32 h m"
  defines "s \<equiv> \<lambda>fresh. case fresh of Some s \<Rightarrow> s | None \<Rightarrow> strncpy_bytes seedrng_failure 32"
  shows "make_seed fresh h =
    memcpy_at (s fresh) (length (s fresh) - 32) (rfc_blake2s 32 (m @ size_bytes (length (s fresh)) @ s fresh))"
proof -
  have "blake2s_rep 32 (blake2s_update (blake2s_update h (size_bytes (length (s fresh)))) (s fresh))
     ((m @ size_bytes (length (s fresh))) @ s fresh)"
    using assms(1) by (blast intro: blake2s_rep_update)
  from blake2s_rep_final [OF this] show ?thesis by (simp add: make_seed_def Let_def s_def)
qed

lemma length_make_seed:
  assumes "blake2s_rep 32 h m" and "\<And>s. fresh = Some s \<Longrightarrow> 32 \<le> length s"
  shows "length (make_seed fresh h) = (case fresh of None \<Rightarrow> 32 | Some s \<Rightarrow> length s)"
  using assms
  by (auto simp: make_seed_hash [OF assms(1)] memcpy_at_def length_rfc_blake2s strncpy_bytes_def str_bytes_def
    split: option.splits)

text \<open>
  A save that reports no error: the file was created under the non-creditable name, took all
  the bytes, was synced, and only then renamed, if at all.
\<close>

lemma save_seed_ok:
  assumes "save_seed e k l s c = Some (r, l')" and "r \<in> {0, 64}"
  obtains m where "l' = l @ SrCreate NON_CREDITABLE_SEED # m @ SrFsync #
      (if c then [SrRename NON_CREDITABLE_SEED CREDITABLE_SEED] else [])"
    and "accepted e (l @ [SrCreate NON_CREDITABLE_SEED]) m = s"
    and "sr_sys e (l @ SrCreate NON_CREDITABLE_SEED # m) SrFsync = 0"
proof -
  let ?l = "l @ [SrCreate NON_CREDITABLE_SEED]"
  from assms obtain l1 where w: "write_full e k ?l 0 s = Some (Inr (length s), l1)"
    and f: "sr_sys e l1 SrFsync = 0"
    and l': "l' = l1 @ SrFsync # (if c then [SrRename NON_CREDITABLE_SEED CREDITABLE_SEED] else [])"
    by (auto simp: save_seed_def Let_def split: if_splits bind_splits)
  from w obtain m where "l1 = ?l @ m" "accepted e ?l m = s" by (rule write_full_accepted) blast
  with l' f that show ?thesis by auto
qed

text \<open>The bits of the exit status come from disjoint positions.\<close>

lemma status_zero:
  fixes r :: nat
  assumes "(if ok1 then 0 else 2) OR (if ok2 then 0 else 4) OR (if ok3 then 0 else 8) OR r = 0"
  shows "ok1 \<and> ok2 \<and> ok3 \<and> r = 0"
  using assms by (auto split: if_splits simp: or_eq_0_iff)


section \<open>Termination\<close>

text \<open>
  From the call number \<open>N\<close> on, no call is interrupted, \<open>getrandom\<close> delivers something and
  \<open>write\<close> takes something.
\<close>

definition settles :: "sr_env \<Rightarrow> nat \<Rightarrow> bool" where
  "settles e N \<longleftrightarrow> (\<forall>l c. N \<le> length l \<longrightarrow> sr_data e l c \<noteq> Inl EINTR \<and> sr_wrote e l c \<notin> {Inl EINTR, Inr 0}
     \<and> (\<forall>i n. c = SrGetrandom i n \<longrightarrow> sr_data e l c \<noteq> Inr []))"

lemma minus_min_less: "r - min n r < r \<longleftrightarrow> 0 < n \<and> 0 < r" for r n :: nat
  by (auto simp: min_def)

lemma gr_returns:
  assumes "settles e N" and "N + n < k"
  shows "\<exists>x l'. getrandom_full e i k l p n = Some (x, l')"
  by (rule gr.returns [where N = N]) (use assms in \<open>auto simp: settles_def recv_def minus_min_less split: sum.splits\<close>)

lemma rd_returns:
  assumes "settles e N" and "N + n < k"
  shows "\<exists>x l'. read_full e fd k l p n = Some (x, l')"
  by (rule rd.returns [where N = N]) (use assms in \<open>auto simp: settles_def recv_def minus_min_less split: sum.splits\<close>)

lemma wr_returns:
  assumes "settles e N" and "N + length p < k"
  shows "\<exists>x l'. write_full e k l n p = Some (x, l')"
proof (rule wr.returns [where N = N])
  fix l :: "sr_call list" and n r
  assume "N \<le> length l"
  with assms(1) have "sr_wrote e l (SrWrite r) \<notin> {Inl EINTR, Inr 0}" by (simp add: settles_def)
  then show "case send e l n r of Inl err \<Rightarrow> err \<noteq> EINTR
      | Inr (p', r') \<Rightarrow> length r' = 0 \<or> length r' < length r \<or> False"
    by (auto simp: send_def minus_min_less split: sum.splits)
qed (use assms in simp)

lemma seed_from_file_returns:
  assumes "settles e N" and "N + 512 < k"
  shows "\<exists>x. seed_from_file_if_exists e k f c h l = Some x"
proof -
  obtain r m where "read_full e f k l [] MAX_SEED_LEN = Some (r, m)"
    using rd_returns [OF assms(1)] assms(2) by blast
  then show ?thesis
    by (cases r) (auto simp: seed_from_file_if_exists_def Let_def split_beta simp del: split_paired_Ex)
qed

lemma seed_len_returns:
  assumes "settles e N" and "N + 512 < k"
  shows "\<exists>x. determine_optimal_seed_len e k l = Some x"
proof -
  obtain r m where "read_full e ''/proc/sys/kernel/random/poolsize'' k l [] 10 = Some (r, m)"
    using rd_returns [OF assms(1)] assms(2) by fastforce
  then show ?thesis by (cases r) (simp_all add: determine_optimal_seed_len_def Let_def)
qed

lemma new_seed_returns:
  assumes "settles e N" and "N + n < k"
  shows "\<exists>x. read_new_seed e k l n = Some x"
proof -
  have ur: "\<exists>x. read_urandom e k m n = Some x" for m
    using rd_returns [OF assms, of "''/dev/urandom''" m "[]"] by (auto simp: read_urandom_def)
  obtain r m where g: "getrandom_full e False k l [] n = Some (r, m)"
    using gr_returns [OF assms] by blast
  obtain r' m' where g': "getrandom_full e True k m [] n = Some (r', m')"
    using gr_returns [OF assms] by blast
  obtain s1 m1 where u: "read_urandom e k m n = Some (s1, m1)" using ur [of m] by auto
  obtain s2 m2 where u': "read_urandom e k m' n = Some (s2, m2)" using ur [of m'] by auto
  show ?thesis by (simp add: read_new_seed_def g g' u u' del: split_paired_Ex)
qed

lemma save_seed_returns:
  assumes "settles e N" and "N + length s < k"
  shows "\<exists>x. save_seed e k l s c = Some x"
proof -
  obtain r m where "write_full e k (l @ [SrCreate NON_CREDITABLE_SEED]) 0 s = Some (r, m)"
    using wr_returns [OF assms] by blast
  then show ?thesis by (simp add: save_seed_def Let_def)
qed

text \<open>
  C20: The program returns: if from some point on no call is interrupted and
  \<open>getrandom\<close> and \<open>write\<close> make progress, the retry loops end, whatever
  happens before, within \<open>N + 513\<close> calls each.
\<close>

theorem seedrng_returns:
  assumes "settles e N"
  shows "\<exists>status l. seedrng_main e (N + 513) = Some (status, l)"
proof -
  let ?k = "N + 513"
  have k: "N + 512 < ?k" by simp
  note from_file = seed_from_file_returns [OF assms k]
  obtain ok1 h1 l1 where 1: "seed_from_file_if_exists e ?k NON_CREDITABLE_SEED False (hash_prefix e)
      [SrMkdir, SrFlock] = Some (ok1, h1, l1)" using from_file by fastforce
  obtain ok2 h2 l2 where 2: "seed_from_file_if_exists e ?k CREDITABLE_SEED (\<not> skip_credit e l1) h1 l1 =
      Some (ok2, h2, l2)" using from_file by fastforce
  obtain n l3 where 3: "determine_optimal_seed_len e ?k l2 = Some (n, l3)"
    using seed_len_returns [OF assms k] by fastforce
  have n: "32 \<le> n" "n \<le> 512" using seed_len_bounds [OF 3] by auto
  then obtain fresh c l4 where 4: "read_new_seed e ?k l3 n = Some (fresh, c, l4)"
    using new_seed_returns [OF assms, of n ?k] by fastforce
  obtain b where b: "blake2s_rep 32 h2 b"
    using hash_prefix_rep 1 2 by (blast dest: seed_from_file_rep)
  have "length (make_seed fresh h2) \<le> 512"
    using length_make_seed [OF b, of fresh] n new_seed_fresh [of e ?k l3 n _ c l4] 4
    by (cases fresh) auto
  then obtain r l where 5: "save_seed e ?k l4 (make_seed fresh h2) c = Some (r, l)"
    using save_seed_returns [OF assms, of "make_seed fresh h2" ?k] by fastforce
  show ?thesis
    by (simp add: seedrng_main_def Let_def hash_prefix_def [symmetric] 1 2 3 4 5)
qed

text \<open>
  The last 32 bytes of the new seed are the BLAKE2s hash of everything that was fed to the
  hash (prefix, clocks, the old seeds with their lengths), of the new length and of the fresh
  bytes; the bytes before them are the fresh ones.
\<close>

lemma new_seed_hash:
  assumes "32 \<le> length s"
  shows "make_seed (Some s) (foldl blake2s_update (blake2s_init 32) chunks) =
    take (length s - 32) s @ rfc_blake2s 32 (concat chunks @ size_bytes (length s) @ s)"
proof -
  have "blake2s_rep 32 (foldl blake2s_update (blake2s_init 32) chunks) (concat chunks)"
    using b2s.rep_foldl [OF b2s.rep_init] by fastforce
  from make_seed_hash [OF this, of "Some s"] assms show ?thesis
    by (simp add: memcpy_at_def length_rfc_blake2s)
qed

theorem new_seed_hash_witness:
  "make_seed (Some (replicate 40 7)) (foldl blake2s_update (blake2s_init 32) [[1], [2, 3]]) =
    replicate 8 7 @ rfc_blake2s 32 ([1, 2, 3] @ size_bytes 40 @ replicate 40 7)"
  using new_seed_hash [of "replicate 40 7" "[[1], [2, 3]]"] by (simp add: min_def)

section \<open>Concrete runs\<close>

text \<open>
  A system with a creditable seed of three bytes: \<open>getrandom\<close> works and the pool size cannot be
  read.
\<close>

definition boot_env :: sr_env where
  "boot_env =
     \<lparr>sr_uid = 0, sr_realtime = replicate 16 1, sr_boottime = replicate 16 2,
      sr_open = (\<lambda>l f. if f \<in> {SEED_DIR, CREDITABLE_SEED, ''/dev/urandom''} then 0 else ENOENT),
      sr_stat = (\<lambda>l f. None), sr_poll = (\<lambda>l. 1), sr_sys = (\<lambda>l c. 0),
      sr_data = (\<lambda>l c. case c of SrGetrandom i n \<Rightarrow> Inr (replicate (Suc n) 7)
                     | SrRead f n \<Rightarrow> if n = 512 then Inr [1, 2, 3] else Inr [] | _ \<Rightarrow> Inl EIO),
      sr_wrote = (\<lambda>l c. Inr 1000)\<rparr>"

lemma boot_env_sel [simp]:
  "sr_uid boot_env = 0" "sr_stat boot_env l f = None" "sr_sys boot_env l c = 0" "sr_wrote boot_env l c = Inr 1000"
  "sr_open boot_env l f = (if f \<in> {SEED_DIR, CREDITABLE_SEED, ''/dev/urandom''} then 0 else ENOENT)"
  "sr_data boot_env l (SrGetrandom i n) = Inr (replicate (Suc n) 7)"
  "sr_data boot_env l (SrRead f n) = (if n = 512 then Inr [1, 2, 3] else Inr [])"
  by (simp_all add: boot_env_def)

text \<open>A kernel without \<open>getrandom\<close>, and \<open>/dev/urandom\<close> cannot be opened.\<close>

definition old_kernel_env :: sr_env where
  "old_kernel_env =
     \<lparr>sr_uid = 0, sr_realtime = replicate 16 1, sr_boottime = replicate 16 2,
      sr_open = (\<lambda>l f. if f \<in> {SEED_DIR, ''/dev/random''} then 0 else ENOENT),
      sr_stat = (\<lambda>l f. None), sr_poll = (\<lambda>l. 1), sr_sys = (\<lambda>l c. 0),
      sr_data = (\<lambda>l c. Inl ENOSYS), sr_wrote = (\<lambda>l c. Inr 1000)\<rparr>"

lemma write_full_once:
  "sr_wrote e l (SrWrite p) = Inr n \<Longrightarrow> length p \<le> n \<Longrightarrow>
     write_full e (Suc k) l t p = Some (Inr (t + length p), l @ [SrWrite p])"
  by (simp add: Let_def)

definition boot_seed :: "u8 list" where
  "boot_seed = make_seed (Some (replicate 32 7))
     (blake2s_update (blake2s_update (hash_prefix boot_env) (size_bytes 3)) [1, 2, 3])"

lemma length_boot_seed: "length boot_seed = 32"
proof -
  obtain m where "blake2s_rep 32 (hash_prefix boot_env) m" using hash_prefix_rep by blast
  from blake2s_rep_update [OF blake2s_rep_update [OF this]]
  have "blake2s_rep 32 (blake2s_update (blake2s_update (hash_prefix boot_env) (size_bytes 3)) [1, 2, 3])
      ((m @ size_bytes 3) @ [1, 2, 3])" .
  from length_make_seed [OF this, of "Some (replicate 32 7)"] show ?thesis
    by (simp add: boot_seed_def)
qed

lemma boot_run:
  "seedrng_main boot_env 5 = Some (0,
     [SrMkdir, SrFlock, SrRead CREDITABLE_SEED 512, SrRead CREDITABLE_SEED 509, SrUnlink CREDITABLE_SEED, SrFsyncDir,
      SrAddEntropy 24 [1, 2, 3]] @
     [SrGetrandom False 32, SrCreate NON_CREDITABLE_SEED, SrWrite boot_seed, SrFsync,
      SrRename NON_CREDITABLE_SEED CREDITABLE_SEED])"
proof -
  have f1: "seed_from_file_if_exists boot_env 5 NON_CREDITABLE_SEED False (hash_prefix boot_env) [SrMkdir, SrFlock] =
      Some (True, hash_prefix boot_env, [SrMkdir, SrFlock])"
    by (simp add: seed_from_file_if_exists_def)
  let ?l = "[SrMkdir, SrFlock, SrRead CREDITABLE_SEED 512, SrRead CREDITABLE_SEED 509, SrUnlink CREDITABLE_SEED,
    SrFsyncDir, SrAddEntropy 24 [1, 2, 3]]"
  have rd: "read_full boot_env CREDITABLE_SEED 5 [SrMkdir, SrFlock] [] 512 =
      Some (Inr [1, 2, 3], [SrMkdir, SrFlock, SrRead CREDITABLE_SEED 512, SrRead CREDITABLE_SEED 509])"
    by (simp add: eval_nat_numeral(2,3) Let_def)
  have f2: "seed_from_file_if_exists boot_env 5 CREDITABLE_SEED (\<not> skip_credit boot_env [SrMkdir, SrFlock]) (hash_prefix boot_env)
      [SrMkdir, SrFlock] = Some (True,
       blake2s_update (blake2s_update (hash_prefix boot_env) (size_bytes 3)) [1, 2, 3], ?l)"
    using rd by (simp add: seed_from_file_if_exists_def seed_rng_def skip_credit_def Let_def numeral_3_eq_3)
  have f3: "determine_optimal_seed_len boot_env 5 ?l = Some (32, ?l)"
    by (simp add: determine_optimal_seed_len_def)
  have f4: "read_new_seed boot_env 5 ?l 32 = Some (Some (replicate 32 7), True, ?l @ [SrGetrandom False 32])"
    using getrandom_full.simps(2) [of boot_env False 4 ?l "[]" 32]
    by (simp add: read_new_seed_def full_def del: getrandom_full.simps replicate.simps)
  have f5: "write_full boot_env 5 m 0 boot_seed = Some (Inr 32, m @ [SrWrite boot_seed])" for m
    using write_full_once [of boot_env m boot_seed 1000 4 0] length_boot_seed
    by (simp del: write_full.simps)
  have "save_seed boot_env 5 (?l @ [SrGetrandom False 32]) boot_seed True =
      Some (0, ?l @ [SrGetrandom False 32, SrCreate NON_CREDITABLE_SEED, SrWrite boot_seed, SrFsync,
         SrRename NON_CREDITABLE_SEED CREDITABLE_SEED])"
    by (simp add: save_seed_def f5 length_boot_seed)
  then show ?thesis
    using f1 f2 f3 f4
    by (simp add: seedrng_main_def hash_prefix_def [symmetric] boot_seed_def [symmetric] Let_def)

qed



theorem seedrng_returns_witness: "\<exists>status l. seedrng_main old_kernel_env 513 = Some (status, l)"
  using seedrng_returns [of old_kernel_env 0] by (simp add: settles_def old_kernel_env_def)


end
