(* ===== verification/Mnt.thy ===== *)
theory Mnt
  imports Prelude
begin

unbundle bit_operations_syntax

text \<open>
  The mount helper, \<^verbatim>\<open>src/early/helpers/mnt.cc\<close>: parsing and printing of mount options,
  the mount, remount and umount operations, the early pseudo-filesystem setup
  (\<open>do_prepare\<close>), the read-write remount of the root (\<open>do_root_rw\<close>) and the command
  dispatch. The kernel and the files it exports are the environment \<open>mnt_env\<close>; the
  state-changing system calls form the trace \<open>mnt_call list\<close>.
\<close>

section \<open>Constants and data\<close>

text \<open>The flags of \<open>mount(2)\<close> and \<open>umount2(2)\<close>, as Linux defines them.\<close>

abbreviation (input) MS_RDONLY :: u64 where "MS_RDONLY \<equiv> 1"
abbreviation (input) MS_NOSUID :: u64 where "MS_NOSUID \<equiv> 2"
abbreviation (input) MS_NODEV :: u64 where "MS_NODEV \<equiv> 4"
abbreviation (input) MS_NOEXEC :: u64 where "MS_NOEXEC \<equiv> 8"
abbreviation (input) MS_SYNCHRONOUS :: u64 where "MS_SYNCHRONOUS \<equiv> 0x10"
abbreviation (input) MS_REMOUNT :: u64 where "MS_REMOUNT \<equiv> 0x20"
abbreviation (input) MS_MANDLOCK :: u64 where "MS_MANDLOCK \<equiv> 0x40"
abbreviation (input) MS_DIRSYNC :: u64 where "MS_DIRSYNC \<equiv> 0x80"
abbreviation (input) MS_NOSYMFOLLOW :: u64 where "MS_NOSYMFOLLOW \<equiv> 0x100"
abbreviation (input) MS_NOATIME :: u64 where "MS_NOATIME \<equiv> 0x400"
abbreviation (input) MS_NODIRATIME :: u64 where "MS_NODIRATIME \<equiv> 0x800"
abbreviation (input) MS_BIND :: u64 where "MS_BIND \<equiv> 0x1000"
abbreviation (input) MS_MOVE :: u64 where "MS_MOVE \<equiv> 0x2000"
abbreviation (input) MS_REC :: u64 where "MS_REC \<equiv> 0x4000"
abbreviation (input) MS_SILENT :: u64 where "MS_SILENT \<equiv> 0x8000"
abbreviation (input) MS_UNBINDABLE :: u64 where "MS_UNBINDABLE \<equiv> 0x20000"
abbreviation (input) MS_PRIVATE :: u64 where "MS_PRIVATE \<equiv> 0x40000"
abbreviation (input) MS_SLAVE :: u64 where "MS_SLAVE \<equiv> 0x80000"
abbreviation (input) MS_SHARED :: u64 where "MS_SHARED \<equiv> 0x100000"
abbreviation (input) MS_RELATIME :: u64 where "MS_RELATIME \<equiv> 0x200000"
abbreviation (input) MS_I_VERSION :: u64 where "MS_I_VERSION \<equiv> 0x800000"
abbreviation (input) MS_STRICTATIME :: u64 where "MS_STRICTATIME \<equiv> 0x1000000"
abbreviation (input) MS_LAZYTIME :: u64 where "MS_LAZYTIME \<equiv> 0x2000000"

abbreviation (input) MNT_FORCE :: u32 where "MNT_FORCE \<equiv> 1"
abbreviation (input) MNT_DETACH :: u32 where "MNT_DETACH \<equiv> 2"

definition MS_TMASK :: u64 where
  "MS_TMASK = MS_BIND OR MS_MOVE OR MS_REMOUNT"

definition MS_AMASK :: u64 where
  "MS_AMASK = MS_NOATIME OR MS_RELATIME"

record mntopt =
  mo_name :: string
  mo_flagmask :: u64
  mo_flagset :: u64
  mo_invert :: bool

abbreviation (input) MO :: "string \<Rightarrow> u64 \<Rightarrow> u64 \<Rightarrow> bool \<Rightarrow> mntopt" where
  "MO n m s i \<equiv> \<lparr>mo_name = n, mo_flagmask = m, mo_flagset = s, mo_invert = i\<rparr>"

definition known_opts :: "mntopt list" where
  "known_opts = [
     MO ''async'' MS_SYNCHRONOUS MS_SYNCHRONOUS True,
     MO ''atime'' MS_AMASK MS_NOATIME True,
     MO ''bind'' MS_TMASK MS_BIND False,
     MO ''dev'' MS_NODEV MS_NODEV True,
     MO ''diratime'' MS_NODIRATIME MS_NODIRATIME True,
     MO ''dirsync'' MS_DIRSYNC MS_DIRSYNC False,
     MO ''exec'' MS_NOEXEC MS_NOEXEC True,
     MO ''iversion'' MS_I_VERSION MS_I_VERSION False,
     MO ''lazytime'' MS_LAZYTIME MS_LAZYTIME False,
     MO ''loud'' MS_SILENT MS_SILENT True,
     MO ''mand'' MS_MANDLOCK MS_MANDLOCK False,
     MO ''move'' MS_TMASK MS_MOVE False,
     MO ''noatime'' MS_AMASK MS_NOATIME False,
     MO ''nodev'' MS_NODEV MS_NODEV False,
     MO ''nodiratime'' MS_NODIRATIME MS_NODIRATIME False,
     MO ''noexec'' MS_NOEXEC MS_NOEXEC False,
     MO ''noiversion'' MS_I_VERSION MS_I_VERSION True,
     MO ''nolazytime'' MS_LAZYTIME MS_LAZYTIME True,
     MO ''nomand'' MS_MANDLOCK MS_MANDLOCK True,
     MO ''norelatime'' MS_AMASK MS_RELATIME True,
     MO ''nostrictatime'' MS_STRICTATIME MS_STRICTATIME True,
     MO ''nosuid'' MS_NOSUID MS_NOSUID False,
     MO ''nosymfollow'' MS_NOSYMFOLLOW MS_NOSYMFOLLOW False,
     MO ''private'' MS_PRIVATE MS_PRIVATE False,
     MO ''rbind'' MS_TMASK (MS_BIND OR MS_REC) False,
     MO ''relatime'' MS_AMASK MS_RELATIME False,
     MO ''remount'' MS_TMASK MS_REMOUNT False,
     MO ''ro'' MS_RDONLY MS_RDONLY False,
     MO ''rprivate'' MS_PRIVATE (MS_PRIVATE OR MS_REC) False,
     MO ''rshared'' MS_SHARED (MS_SHARED OR MS_REC) False,
     MO ''rslave'' MS_SLAVE (MS_SLAVE OR MS_REC) False,
     MO ''runbindable'' MS_UNBINDABLE (MS_UNBINDABLE OR MS_REC) False,
     MO ''rw'' MS_RDONLY MS_RDONLY True,
     MO ''silent'' MS_SILENT MS_SILENT False,
     MO ''shared'' MS_SHARED MS_SHARED False,
     MO ''slave'' MS_SLAVE MS_SLAVE False,
     MO ''strictatime'' MS_STRICTATIME MS_STRICTATIME False,
     MO ''suid'' MS_NOSUID MS_NOSUID True,
     MO ''symfollow'' MS_NOSYMFOLLOW MS_NOSYMFOLLOW True,
     MO ''sync'' MS_SYNCHRONOUS MS_SYNCHRONOUS False,
     MO ''unbindable'' MS_UNBINDABLE MS_UNBINDABLE False]"

section \<open>Mount options\<close>

text \<open>
  The search of \<open>known_opts\<close>: it stops at the first entry whose name is greater than the
  option, as the loop of \<open>parse_mntopts\<close> does.
\<close>

fun find_opt :: "string \<Rightarrow> mntopt list \<Rightarrow> mntopt option" where
  "find_opt optn [] = None"
| "find_opt optn (ko # kos) =
     (if optn = mo_name ko then Some ko
      else if optn < mo_name ko then None
      else find_opt optn kos)"

definition apply_opt :: "mntopt \<Rightarrow> u64 \<Rightarrow> u64" where
  "apply_opt optv flags =
     (let flags = flags AND NOT (mo_flagmask optv)
      in if mo_invert optv then flags AND NOT (mo_flagset optv)
         else flags OR mo_flagset optv)"

definition add_eopt :: "string \<Rightarrow> string \<Rightarrow> string" where
  "add_eopt eopts optn = (if eopts \<noteq> [] then eopts @ '','' @ optn else eopts @ optn)"

text \<open>One iteration of the loop of \<open>parse_mntopts\<close>.\<close>

definition parse_mntopt :: "string \<Rightarrow> u64 \<times> string \<Rightarrow> u64 \<times> string" where
  "parse_mntopt optn st =
     (case st of (flags, eopts) \<Rightarrow>
        if optn = [] then (flags, eopts)
        else case find_opt optn known_opts of
               Some optv \<Rightarrow> (apply_opt optv flags, eopts)
             | None \<Rightarrow>
                 if optn = ''defaults''
                 then (flags AND NOT (MS_RDONLY OR MS_NOSUID OR MS_NODEV OR MS_NOEXEC OR MS_SYNCHRONOUS), eopts)
                 else (flags, add_eopt eopts optn))"

text \<open>
  \<open>strsep\<close> overwrites each delimiter of the caller's buffer with a NUL, so the parse also
  returns the buffer as it leaves it.
\<close>

definition strsep_clobber :: "string \<Rightarrow> string" where
  "strsep_clobber b =
     map (\<lambda>c. if c = CHR '','' then NUL else c) (cstr b) @ drop (length (cstr b)) b"

definition parse_mntopts :: "string option \<Rightarrow> u64 \<Rightarrow> string \<Rightarrow> u64 \<times> string \<times> string option" where
  "parse_mntopts opts flags eopts =
     (case opts of
        None \<Rightarrow> (flags, eopts, None)
      | Some b \<Rightarrow>
          (case fold parse_mntopt (strsep_loop (cstr b) '','') (flags, eopts) of
             (flags, eopts) \<Rightarrow> (flags, eopts, Some (strsep_clobber b))))"

definition unparse_skip :: "u64 \<Rightarrow> mntopt \<Rightarrow> bool" where
  "unparse_skip flags ko \<longleftrightarrow>
     mo_invert ko \<or> flags AND mo_flagset ko = 0 \<or>
     mo_flagset ko \<in> {MS_PRIVATE, MS_SHARED, MS_SLAVE, MS_UNBINDABLE} \<or>
     mo_flagset ko = MS_REC \<and> flags AND MS_BIND = 0"

definition unparse_mntopts :: "u64 \<Rightarrow> string \<Rightarrow> string" where
  "unparse_mntopts flags eopts =
     (let ret = fold (\<lambda>ko ret. if unparse_skip flags ko then ret else add_eopt ret (mo_name ko))
                  known_opts []
      in if eopts \<noteq> [] then add_eopt ret eopts else ret)"

definition parse_umntopts :: "string option \<Rightarrow> u32" where
  "parse_umntopts opts =
     (case opts of
        None \<Rightarrow> 0
      | Some b \<Rightarrow>
          fold (\<lambda>s flags. if s = ''force'' then flags OR MNT_FORCE
                          else if s = ''detach'' then flags OR MNT_DETACH else flags)
            (strsep_loop (cstr b) '','') 0)"

section \<open>The environment\<close>

record mntent =
  mnt_fsname :: string
  mnt_dir :: string
  mnt_type :: string
  mnt_opts :: string
  mnt_freq :: int
  mnt_passno :: int

text \<open>
  The state-changing calls: each mount carries its result (\<open>None\<close> for success, otherwise
  the error number), \<open>CHelper\<close> is a forked child that executes a mount helper.
\<close>

datatype mnt_call =
    CUmask nat
  | CMount string string string u64 "string option" "int option"
      \<comment> \<open>source, target, file system type, flags, data, result\<close>
  | CHelper string string string string
      \<comment> \<open>program, option string, source, target\<close>
  | CUmount string u32
  | CMkdir string nat
  | CSymlink string string

type_synonym mnt_log = "mnt_call list"

text \<open>
  What the kernel and the C library answer. \<open>e_mntent\<close> is \<open>setmntent\<close> with all the
  entries \<open>getmntent\<close> delivers (or the error number of the open); \<open>e_waitpid\<close> lists the
  error numbers of the \<open>waitpid\<close> calls that fail before one succeeds.
\<close>

record mnt_env =
  e_lstat :: "mnt_log \<Rightarrow> string \<Rightarrow> fstat option"
  e_stat :: "mnt_log \<Rightarrow> string \<Rightarrow> fstat option"
  e_malloc :: bool
  e_mntent :: "mnt_log \<Rightarrow> string \<Rightarrow> int + mntent list"
  e_realpath :: "mnt_log \<Rightarrow> string \<Rightarrow> string option"
  e_access_x :: "mnt_log \<Rightarrow> string \<Rightarrow> bool"
  e_fork :: "mnt_log \<Rightarrow> bool"
  e_waitpid :: "mnt_log \<Rightarrow> int list"
  e_mount :: "mnt_log \<Rightarrow> string \<Rightarrow> string \<Rightarrow> string \<Rightarrow> u64 \<Rightarrow> string option \<Rightarrow> int option"
  e_umount2 :: "mnt_log \<Rightarrow> string \<Rightarrow> u32 \<Rightarrow> int option"
  e_symlink :: "mnt_log \<Rightarrow> string \<Rightarrow> string \<Rightarrow> int option"
  e_getgrnam :: "mnt_log \<Rightarrow> string \<Rightarrow> u32 option"

section \<open>Is it a mount point?\<close>

definition mntpt_noproc :: "mnt_env \<Rightarrow> string \<Rightarrow> fstat \<Rightarrow> mnt_log \<Rightarrow> int" where
  "mntpt_noproc env inpath st log =
     (if st_kind st \<noteq> S_DIR then 1
      else if \<not> e_malloc env then 1
      else case e_stat env log (inpath @ ''/..'') of
             None \<Rightarrow> 1
           | Some st' \<Rightarrow> if st_dev st' = st_dev st \<and> st_ino st' \<noteq> st_ino st then 1 else 0)"

definition do_is :: "mnt_env \<Rightarrow> string \<Rightarrow> mnt_log \<Rightarrow> int" where
  "do_is env mntpt log =
     (case e_lstat env log mntpt of
        None \<Rightarrow> 1
      | Some st \<Rightarrow>
          if st_kind st = S_LNK then 1
          else case e_mntent env log ''/proc/self/mounts'' of
                 Inl _ \<Rightarrow> mntpt_noproc env mntpt st log
               | Inr mns \<Rightarrow>
                   (case e_realpath env log mntpt of
                      None \<Rightarrow> 1
                    | Some path \<Rightarrow> if list_ex (\<lambda>mn. mnt_dir mn = path) mns then 0 else 1))"

section \<open>Mounting\<close>

fun waitpid_loop :: "int list \<Rightarrow> int" where
  "waitpid_loop [] = 0"
| "waitpid_loop (e # es) = (if e = EINTR then waitpid_loop es else 1)"

definition do_mount_helper ::
    "mnt_env \<Rightarrow> string \<Rightarrow> string \<Rightarrow> string \<Rightarrow> u64 \<Rightarrow> string \<Rightarrow> mnt_log \<Rightarrow> int \<times> mnt_log" where
  "do_mount_helper env tgt src fstype flags eopts log =
     (let hname = take 255 (''/sbin/mount.'' @ fstype)
      in if \<not> e_access_x env log hname then (-1, log)
         else let opts = unparse_mntopts flags eopts
              in if \<not> e_fork env log then (1, log)
                 else let log = log @ [CHelper hname opts src tgt]
                      in (waitpid_loop (e_waitpid env log), log))"

definition sys_mount ::
    "mnt_env \<Rightarrow> string \<Rightarrow> string \<Rightarrow> string \<Rightarrow> u64 \<Rightarrow> string option \<Rightarrow> mnt_log \<Rightarrow> int option \<times> mnt_log" where
  "sys_mount env src tgt fstype flags data log =
     (let r = e_mount env log src tgt fstype flags data
      in (r, log @ [CMount src tgt fstype flags data r]))"

definition pmask :: u64 where
  "pmask = MS_SHARED OR MS_PRIVATE OR MS_SLAVE OR MS_UNBINDABLE"

definition mount_flags :: "u64 \<Rightarrow> u64" where
  "mount_flags flags = (if flags AND pmask \<noteq> 0 then flags AND NOT (pmask OR MS_REC) else flags)"

definition prop_flags :: "u64 \<Rightarrow> u64" where
  "prop_flags flags = (if flags AND pmask \<noteq> 0 then flags AND (pmask OR MS_REC) else flags)"

definition do_mount_raw ::
    "mnt_env \<Rightarrow> string \<Rightarrow> string \<Rightarrow> string \<Rightarrow> u64 \<Rightarrow> string \<Rightarrow> bool \<Rightarrow> mnt_log \<Rightarrow> int \<times> mnt_log" where
  "do_mount_raw env tgt src fstype flags0 eopts helper log =
     (let pflags = prop_flags flags0; flags = mount_flags flags0;
          (hret, log) = (if helper then do_mount_helper env tgt src fstype flags eopts log else (-1, log))
      in if hret \<ge> 0 then (hret, log)
         else case sys_mount env src tgt fstype flags (Some eopts) log of
                (Some serrno, log) \<Rightarrow>
                  (case do_mount_helper env tgt src fstype flags eopts log of
                     (ret, log) \<Rightarrow> if ret < 0 then (1, log) else (ret, log))
              | (None, log) \<Rightarrow>
                  if pflags AND pmask \<noteq> 0
                  then (case sys_mount env src tgt fstype pflags None log of
                          (Some _, log) \<Rightarrow> (1, log)
                        | (None, log) \<Rightarrow> (0, log))
                  else (0, log))"

definition do_mount ::
    "mnt_env \<Rightarrow> string \<Rightarrow> string \<Rightarrow> string \<Rightarrow> string option \<Rightarrow> mnt_log \<Rightarrow> int \<times> string option \<times> mnt_log" where
  "do_mount env tgt src fstype opts log =
     (case parse_mntopts opts MS_SILENT [] of
        (flags, eopts, opts') \<Rightarrow>
          (case do_mount_raw env tgt src fstype flags eopts False log of
             (r, log) \<Rightarrow> (r, opts', log)))"

definition do_try ::
    "mnt_env \<Rightarrow> string \<Rightarrow> string \<Rightarrow> string \<Rightarrow> string option \<Rightarrow> mnt_log \<Rightarrow> int \<times> string option \<times> mnt_log" where
  "do_try env tgt src fstype opts log =
     (if do_is env tgt log = 0 then (0, opts, log)
      else do_mount env tgt src fstype opts log)"

definition do_try_maybe ::
    "mnt_env \<Rightarrow> string \<Rightarrow> string \<Rightarrow> string \<Rightarrow> string option \<Rightarrow> mnt_log \<Rightarrow> int \<times> string option \<times> mnt_log" where
  "do_try_maybe env tgt src fstype opts log =
     (case e_stat env log tgt of
        None \<Rightarrow> (0, opts, log)
      | Some st \<Rightarrow>
          if st_kind st \<noteq> S_DIR then (0, opts, log)
          else do_try env tgt src fstype opts log)"

text \<open>The first entry for a mount point, as the \<open>getmntent\<close> loops look it up.\<close>

definition find_mnt :: "string \<Rightarrow> mntent list \<Rightarrow> mntent option" where
  "find_mnt dir mns = find (\<lambda>mn. mnt_dir mn = dir) mns"

definition do_remount :: "mnt_env \<Rightarrow> string \<Rightarrow> string option \<Rightarrow> mnt_log \<Rightarrow> int \<times> mnt_log" where
  "do_remount env tgt opts log =
     (case e_mntent env log ''/proc/self/mounts'' of
        Inl _ \<Rightarrow> (1, log)
      | Inr mns \<Rightarrow>
          (case find_mnt tgt mns of
             None \<Rightarrow> (1, log)
           | Some mn \<Rightarrow>
               (case parse_mntopts (Some (mnt_opts mn)) (MS_SILENT OR MS_REMOUNT) [] of
                  (rmflags, mtab_eopts, _) \<Rightarrow>
                    (case parse_mntopts opts rmflags mtab_eopts of
                       (rmflags, mtab_eopts, _) \<Rightarrow>
                         (case do_mount_raw env (mnt_dir mn) (mnt_fsname mn) (mnt_type mn)
                                 rmflags mtab_eopts False log of
                            (r, log) \<Rightarrow> (if r \<noteq> 0 then 1 else 0, log))))))"

definition do_umount :: "mnt_env \<Rightarrow> string \<Rightarrow> string option \<Rightarrow> mnt_log \<Rightarrow> int \<times> mnt_log" where
  "do_umount env tgt opts log =
     (let fl = parse_umntopts opts; r = e_umount2 env log tgt fl; log = log @ [CUmount tgt fl]
      in (if r \<noteq> None then 1 else 0, log))"

section \<open>Early pseudo-filesystems\<close>

text \<open>
  \<open>do_prepare\<close> keeps the option buffer \<open>procsys_opts\<close> across several mounts; its state is
  that buffer and the trace. \<open>or_fail\<close> is \<open>if (f (...)) return 1;\<close> followed by the rest.
\<close>

definition or_fail :: "int \<times> 's \<Rightarrow> ('s \<Rightarrow> int \<times> 's) \<Rightarrow> int \<times> 's" where
  "or_fail rs k = (case rs of (r, s) \<Rightarrow> if r \<noteq> 0 then (1, s) else k s)"

definition with_own :: "(string option \<Rightarrow> mnt_log \<Rightarrow> int \<times> string option \<times> mnt_log) \<Rightarrow> string option
    \<Rightarrow> string \<times> mnt_log \<Rightarrow> int \<times> string \<times> mnt_log" where
  "with_own f opts s = (case s of (b, log) \<Rightarrow> case f opts log of (r, _, log) \<Rightarrow> (r, b, log))"

definition with_procsys :: "(string option \<Rightarrow> mnt_log \<Rightarrow> int \<times> string option \<times> mnt_log)
    \<Rightarrow> string \<times> mnt_log \<Rightarrow> int \<times> string \<times> mnt_log" where
  "with_procsys f s =
     (case s of (b, log) \<Rightarrow> case f (Some b) log of (r, b', log) \<Rightarrow> (r, case b' of None \<Rightarrow> b | Some b \<Rightarrow> b, log))"

definition do_symlink :: "mnt_env \<Rightarrow> string \<Rightarrow> string \<Rightarrow> string \<times> mnt_log \<Rightarrow> int \<times> string \<times> mnt_log" where
  "do_symlink env target linkpath s =
     (case s of (b, log) \<Rightarrow>
        let r = e_symlink env log target linkpath; log = log @ [CSymlink target linkpath]
        in (case r of None \<Rightarrow> 0 | Some e \<Rightarrow> if e \<noteq> EEXIST then 1 else 0, b, log))"

definition pts_opts :: "u32 option \<Rightarrow> string" where
  "pts_opts ttyg =
     take 127 (''mode=0620,gid='' @ show_nat (case ttyg of Some g \<Rightarrow> unat g | None \<Rightarrow> 5) @ '',nosuid,noexec'')"

text \<open>The root remount and the mounts of \<open>/sys\<close>, \<open>/dev\<close>, \<open>/dev/pts\<close> and \<open>/dev/shm\<close>.\<close>

definition prepare_mounts :: "mnt_env \<Rightarrow> string option \<Rightarrow> string \<times> mnt_log \<Rightarrow> int \<times> string \<times> mnt_log" where
  "prepare_mounts env root_opts s =
     or_fail (case s of (b, log) \<Rightarrow> case do_remount env ''/'' root_opts log of (r, log) \<Rightarrow> (r, b, log)) (\<lambda>s.
     or_fail (with_procsys (do_try env ''/sys'' ''sysfs'' ''sysfs'') s) (\<lambda>s.
     or_fail (with_own (do_try env ''/dev'' ''dev'' ''devtmpfs'') (Some ''mode=0755,nosuid'') s) (\<lambda>s.
     let s = (fst s, snd s @ [CMkdir ''/dev/pts'' 0x1ED, CMkdir ''/dev/shm'' 0x1ED]);
         ttyg = e_getgrnam env (snd s) ''tty'' in
     or_fail (with_own (do_try env ''/dev/pts'' ''devpts'' ''devpts'') (Some (pts_opts ttyg)) s) (\<lambda>s.
     with_own (do_try env ''/dev/shm'' ''shm'' ''tmpfs'') (Some ''mode=1777,nosuid,nodev'') s))))"

definition prepare_links :: "mnt_env \<Rightarrow> string \<times> mnt_log \<Rightarrow> int \<times> string \<times> mnt_log" where
  "prepare_links env s =
     or_fail (do_symlink env ''/proc/self/fd'' ''/dev/fd'' s) (\<lambda>s.
     or_fail (do_symlink env ''/proc/self/fd/0'' ''/dev/stdin'' s) (\<lambda>s.
     or_fail (do_symlink env ''/proc/self/fd/1'' ''/dev/stdout'' s) (\<lambda>s.
     do_symlink env ''/proc/self/fd/2'' ''/dev/stderr'' s)))"

definition prepare_aux :: "mnt_env \<Rightarrow> string \<times> mnt_log \<Rightarrow> int \<times> string \<times> mnt_log" where
  "prepare_aux env s =
     or_fail (with_own (do_try_maybe env ''/sys/kernel/security'' ''securityfs'' ''securityfs'') None s) (\<lambda>s.
     or_fail (with_procsys (do_try_maybe env ''/sys/firmware/efi/efivars'' ''efivarfs'' ''efivarfs'') s) (\<lambda>s.
     or_fail (with_own (do_try_maybe env ''/sys/fs/selinux'' ''selinuxfs'' ''selinuxfs'') None s) (\<lambda>s.
     (0, s))))"

definition do_prepare :: "mnt_env \<Rightarrow> string option \<Rightarrow> mnt_log \<Rightarrow> int \<times> mnt_log" where
  "do_prepare env root_opts log =
     (case
        or_fail (with_procsys (do_try env ''/proc'' ''proc'' ''proc'') (''nosuid,noexec,nodev'', log @ [CUmask 0])) (\<lambda>s.
        or_fail (prepare_mounts env root_opts s) (\<lambda>s.
        or_fail (prepare_links env s) (prepare_aux env))) of
      (r, _, log) \<Rightarrow> (r, log))"

section \<open>Remounting the root read-write\<close>

definition do_root_rw :: "mnt_env \<Rightarrow> mnt_log \<Rightarrow> int \<times> mnt_log" where
  "do_root_rw env log =
     (let rmflags = MS_SILENT OR MS_REMOUNT;
          from_fstab = (case e_mntent env log ''/etc/fstab'' of
             Inr mns \<Rightarrow> Inr (find_mnt ''/'' mns)
           | Inl e \<Rightarrow> if e \<noteq> ENOENT then Inl 1 else Inr None)
      in case from_fstab of
           Inl r \<Rightarrow> (r, log)
         | Inr (Some mn) \<Rightarrow>
             (case parse_mntopts (Some (mnt_opts mn)) rmflags [] of
                (rmflags, fstab_eopts, _) \<Rightarrow>
                  (case do_mount_raw env (mnt_dir mn) (mnt_fsname mn) (mnt_type mn) rmflags fstab_eopts False log of
                     (r, log) \<Rightarrow> (if r \<noteq> 0 then 1 else 0, log)))
         | Inr None \<Rightarrow>
             (case e_mntent env log ''/proc/self/mounts'' of
                Inl _ \<Rightarrow> (1, log)
              | Inr mns \<Rightarrow>
                  (case find_mnt ''/'' mns of
                     None \<Rightarrow> (1, log)
                   | Some mn \<Rightarrow>
                       (case parse_mntopts (Some (mnt_opts mn)) rmflags [] of
                          (rmflags, fstab_eopts, _) \<Rightarrow>
                            let rmflags = rmflags AND NOT MS_RDONLY
                            in (case do_mount_raw env (mnt_dir mn) (mnt_fsname mn) (mnt_type mn) rmflags fstab_eopts False log of
                                  (r, log) \<Rightarrow> (if r \<noteq> 0 then 1 else 0, log))))))"

section \<open>Queries and command dispatch\<close>

definition show_int :: "int \<Rightarrow> string" where
  "show_int i = (if i < 0 then ''-'' @ show_nat (nat (- i)) else show_nat (nat i))"

text \<open>The loop of \<open>do_getent\<close>: the return value and the lines printed.\<close>

fun getent_loop :: "string \<Rightarrow> string \<Rightarrow> mntent list \<Rightarrow> int \<times> string list" where
  "getent_loop mntpt ent [] = (0, [])"
| "getent_loop mntpt ent (mn # mns) =
     (if mnt_dir mn \<noteq> mntpt then getent_loop mntpt ent mns
      else case (if ent = ''fsname'' then Some (mnt_fsname mn)
                 else if ent = ''type'' then Some (mnt_type mn)
                 else if ent = ''opts'' then Some (mnt_opts mn)
                 else if ent = ''freq'' then Some (show_int (mnt_freq mn))
                 else if ent = ''passno'' then Some (show_int (mnt_passno mn))
                 else None) of
             None \<Rightarrow> (1, [])
           | Some l \<Rightarrow> (case getent_loop mntpt ent mns of (r, ls) \<Rightarrow> (r, l # ls)))"

definition do_getent :: "mnt_env \<Rightarrow> string \<Rightarrow> string \<Rightarrow> string \<Rightarrow> mnt_log \<Rightarrow> int \<times> string list" where
  "do_getent env tab mntpt ent log =
     (case e_mntent env log tab of
        Inl _ \<Rightarrow> (1, [])
      | Inr mns \<Rightarrow> getent_loop mntpt ent mns)"

text \<open>Exit status, standard output and trace; \<open>errx (1, ...)\<close> is exit status 1.\<close>

definition mnt_main :: "mnt_env \<Rightarrow> string list \<Rightarrow> mnt_log \<Rightarrow> int \<times> string list \<times> mnt_log" where
  "mnt_main env argv log =
     (let argc = length argv;
          opt5 = (if argc < 6 then None else Some (argv ! 5));
          err = (1, [], log);
          quiet = (\<lambda>(r, log). (r, [], log));
          quiet3 = (\<lambda>(r, _, log). (r, [], log))
      in if argc < 2 then err
         else if argv ! 1 = ''is'' then
           if argc \<noteq> 3 then err else (do_is env (argv ! 2) log, [], log)
         else if argv ! 1 = ''prepare'' then
           if argc \<noteq> 3 then err else quiet (do_prepare env (Some (argv ! 2)) log)
         else if argv ! 1 = ''root-rw'' then
           if argc \<noteq> 2 then err else quiet (do_root_rw env log)
         else if argv ! 1 = ''try'' then
           if argc < 5 \<or> argc > 6 then err
           else quiet3 (do_try env (argv ! 2) (argv ! 3) (argv ! 4) opt5 log)
         else if argv ! 1 = ''mnt'' then
           if argc < 5 \<or> argc > 6 then err
           else quiet3 (do_mount env (argv ! 2) (argv ! 3) (argv ! 4) opt5 log)
         else if argv ! 1 = ''umnt'' then
           if argc < 3 \<or> argc > 4 then err
           else quiet (do_umount env (argv ! 2) (if argc < 4 then None else Some (argv ! 3)) log)
         else if argv ! 1 = ''rmnt'' then
           if argc \<noteq> 4 then err else quiet (do_remount env (argv ! 2) (Some (argv ! 3)) log)
         else if argv ! 1 = ''getent'' then
           if argc \<noteq> 5 then err
           else (case do_getent env (argv ! 2) (argv ! 3) (argv ! 4) log of (r, out) \<Rightarrow> (r, out, log))
         else err)"

section \<open>Parsing: the last option wins\<close>

text \<open>
  The effect of one option on the flags, as a mask of bits it clears and a mask of bits it
  then sets; an option that is neither in the table nor \<open>defaults\<close> goes to the file system.
\<close>

definition opt_clears :: "string \<Rightarrow> u64" where
  "opt_clears optn =
     (if optn = [] then 0
      else case find_opt optn known_opts of
             Some ko \<Rightarrow> if mo_invert ko then mo_flagmask ko OR mo_flagset ko else mo_flagmask ko
           | None \<Rightarrow> if optn = ''defaults''
               then MS_RDONLY OR MS_NOSUID OR MS_NODEV OR MS_NOEXEC OR MS_SYNCHRONOUS else 0)"

definition opt_sets :: "string \<Rightarrow> u64" where
  "opt_sets optn =
     (if optn = [] then 0
      else case find_opt optn known_opts of
             Some ko \<Rightarrow> if mo_invert ko then 0 else mo_flagset ko
           | None \<Rightarrow> 0)"

definition unrecognised :: "string \<Rightarrow> bool" where
  "unrecognised optn \<longleftrightarrow> optn \<noteq> [] \<and> find_opt optn known_opts = None \<and> optn \<noteq> ''defaults''"

lemma parse_mntopt_effect:
  "parse_mntopt optn (flags, eopts) =
     ((flags AND NOT (opt_clears optn)) OR opt_sets optn,
      if unrecognised optn then add_eopt eopts optn else eopts)"
  by (auto simp: parse_mntopt_def opt_clears_def opt_sets_def unrecognised_def apply_opt_def Let_def
      word_bw_comms intro!: bit_word_eqI split: option.splits)
    (auto simp: bit_simps)

lemma fold_parse_bit:
  "bit (fst (fold parse_mntopt toks (flags, eopts))) n \<longleftrightarrow>
     (case find (\<lambda>t. bit (opt_clears t OR opt_sets t) n) (rev toks) of
        Some t \<Rightarrow> bit (opt_sets t) n
      | None \<Rightarrow> bit flags n)"
proof (induction toks rule: rev_induct)
  case Nil
  show ?case by simp
next
  case (snoc t toks)
  then show ?case
    by (cases "fold parse_mntopt toks (flags, eopts)")
      (auto simp: parse_mntopt_effect bit_or_iff bit_and_iff bit_not_iff dest: bit_imp_le_length)
qed

lemma fold_parse_eopts:
  "snd (fold parse_mntopt toks st) = foldl add_eopt (snd st) (filter unrecognised toks)"
proof (induction toks rule: rev_induct)
  case Nil
  show ?case by simp
next
  case (snoc t toks)
  then show ?case
    by (cases "fold parse_mntopt toks st") (simp add: parse_mntopt_effect)
qed

text \<open>
  the flags that \<open>parse_mntopts\<close> computes. Each flag bit has the value that the last
  option of the comma-separated list that touches the bit gives it, and keeps its initial
  value when no option touches it.
\<close>

lemma parse_last_wins:
  "bit (fst (parse_mntopts (Some b) flags eopts)) n \<longleftrightarrow>
     (case find (\<lambda>t. bit (opt_clears t OR opt_sets t) n) (rev (strsep_loop (cstr b) '','')) of
        Some t \<Rightarrow> bit (opt_sets t) n
      | None \<Rightarrow> bit flags n)"
  using fold_parse_bit [of "strsep_loop (cstr b) '',''" flags eopts n]
  by (simp add: parse_mntopts_def case_prod_beta)

lemma parse_mntopts_append:
  assumes "NUL \<notin> set a" and "NUL \<notin> set b"
    and "parse_mntopts (Some a) flags eopts = (flags', eopts', a')"
    and "parse_mntopts (Some b) flags' eopts' = (flags'', eopts'', b')"
  shows "parse_mntopts (Some (a @ '','' @ b)) flags eopts
    = (flags'', eopts'', Some (strsep_clobber (a @ '','' @ b)))"
  using assms by (auto simp: parse_mntopts_def strsep_loop_append split: prod.splits)


section \<open>The option table\<close>


text \<open>
  what a mount helper is told about a recursive bind mount. \<open>unparse_mntopts\<close> tests for any
  common bit, so \<open>MS_REC\<close> alone prints every recursive propagation option, and a plain
  bind mount is printed as a recursive one as well.
\<close>

lemma unparse_bind:
  "unparse_mntopts MS_BIND [] = ''bind,rbind'' \<and>
   unparse_mntopts (MS_BIND OR MS_REC) [] = ''bind,rbind,rprivate,rshared,rslave,runbindable''"
proof
  show "unparse_mntopts MS_BIND [] = ''bind,rbind''" by code_simp
  show "unparse_mntopts (MS_BIND OR MS_REC) [] = ''bind,rbind,rprivate,rshared,rslave,runbindable''" by code_simp
qed

section \<open>Mount calls\<close>

text \<open>The calls a \<open>do_mount_raw\<close> can make.\<close>

fun raw_call :: "string \<Rightarrow> string \<Rightarrow> u64 \<Rightarrow> string \<Rightarrow> mnt_call \<Rightarrow> bool" where
  "raw_call tgt src flags eopts (CMount s t _ fl d _) \<longleftrightarrow>
     s = src \<and> t = tgt \<and>
     (fl = mount_flags flags \<and> d = Some eopts \<or> flags AND pmask \<noteq> 0 \<and> fl = prop_flags flags \<and> d = None)"
| "raw_call tgt src flags eopts (CHelper _ os s t) \<longleftrightarrow>
     s = src \<and> t = tgt \<and> os = unparse_mntopts (mount_flags flags) eopts"
| "raw_call tgt src flags eopts _ \<longleftrightarrow> False"

lemma do_mount_helper_adds:
  "do_mount_helper env tgt src fstype (mount_flags flags) eopts log = (r, log') \<Longrightarrow>
     adds (raw_call tgt src flags eopts) log log'"
  by (auto simp: do_mount_helper_def Let_def split: if_splits)

lemma prop_flags_pmask: "prop_flags flags AND pmask = flags AND pmask"
  by (auto simp: prop_flags_def bit_eq_iff bit_simps)

lemma do_mount_raw_adds:
  assumes "do_mount_raw env tgt src fstype flags eopts helper log = (r, log')"
  shows "adds (raw_call tgt src flags eopts) log log'"
proof -
  obtain hret logh where h: "(if helper then do_mount_helper env tgt src fstype (mount_flags flags) eopts log
      else (-1, log)) = (hret, logh)" by (meson surj_pair)
  then have 1: "adds (raw_call tgt src flags eopts) log logh"
    by (auto split: if_splits dest: do_mount_helper_adds)
  have "adds (raw_call tgt src flags eopts) logh log'"
    using assms h
    by (auto simp: do_mount_raw_def sys_mount_def Let_def prop_flags_pmask
        split: if_splits option.splits prod.splits
        dest!: do_mount_helper_adds elim!: adds_trans [rotated])
  with 1 show ?thesis by (rule adds_trans)
qed

fun clean_call :: "mnt_call \<Rightarrow> bool" where
  "clean_call (CMount _ _ _ fl d _) \<longleftrightarrow>
     fl AND pmask = 0 \<or> fl AND (pmask OR MS_REC) = fl \<and> d = None"
| "clean_call _ \<longleftrightarrow> True"

lemma mount_flags_pmask: "mount_flags flags AND pmask = 0"
  by (auto simp: mount_flags_def bit_eq_iff bit_simps)

lemma prop_flags_clean: "flags AND pmask \<noteq> 0 \<Longrightarrow> prop_flags flags AND (pmask OR MS_REC) = prop_flags flags"
  by (auto simp: prop_flags_def bit_eq_iff bit_simps)

lemma raw_call_clean: "raw_call tgt src flags eopts c \<Longrightarrow> clean_call c"
  by (cases c) (auto simp: mount_flags_pmask prop_flags_clean)

abbreviation (input) opts_flags :: "string option \<Rightarrow> u64" where
  "opts_flags opts \<equiv> fst (parse_mntopts opts MS_SILENT [])"

abbreviation (input) opts_eopts :: "string option \<Rightarrow> string" where
  "opts_eopts opts \<equiv> fst (snd (parse_mntopts opts MS_SILENT []))"

lemma do_mount_adds:
  "do_mount env tgt src fstype opts log = (r, opts', log') \<Longrightarrow>
     adds (raw_call tgt src (opts_flags opts) (opts_eopts opts)) log log'"
  by (auto simp: do_mount_def split: prod.splits dest: do_mount_raw_adds)

lemma do_try_adds:
  "do_try env tgt src fstype opts log = (r, opts', log') \<Longrightarrow>
     adds (raw_call tgt src (opts_flags opts) (opts_eopts opts)) log log'"
  by (auto simp: do_try_def split: if_splits dest: do_mount_adds)

lemma do_try_maybe_adds:
  "do_try_maybe env tgt src fstype opts log = (r, opts', log') \<Longrightarrow>
     adds (raw_call tgt src (opts_flags opts) (opts_eopts opts)) log log'"
  by (auto simp: do_try_maybe_def split: if_splits option.splits dest: do_try_adds)

lemma do_remount_adds:
  "do_remount env tgt opts log = (r, log') \<Longrightarrow>
     \<exists>src flags eopts. adds (raw_call tgt src flags eopts) log log'"
  by (auto simp: do_remount_def find_mnt_def find_Some_iff
      split: sum.splits option.splits prod.splits dest!: do_mount_raw_adds)

lemma do_root_rw_adds:
  "do_root_rw env log = (r, log') \<Longrightarrow>
     \<exists>src flags eopts. adds (raw_call ''/'' src flags eopts) log log'"
  by (auto simp: do_root_rw_def Let_def find_mnt_def find_Some_iff
      split: sum.splits option.splits prod.splits if_splits dest!: do_mount_raw_adds)

text \<open>
  An invariant of the state of \<open>do_prepare\<close>: \<open>B\<close> of the shared option buffer, and only
  calls that satisfy \<open>P\<close> were added to the trace.
\<close>

definition prep_inv :: "(mnt_call \<Rightarrow> bool) \<Rightarrow> (string \<Rightarrow> bool) \<Rightarrow> mnt_log \<Rightarrow> string \<times> mnt_log \<Rightarrow> bool" where
  "prep_inv P B log s \<longleftrightarrow> B (fst s) \<and> adds P log (snd s)"

lemma or_fail_inv:
  "I (snd rs) \<Longrightarrow> (\<And>s. I s \<Longrightarrow> I (snd (k s))) \<Longrightarrow> I (snd (or_fail rs k))"
  by (auto simp: or_fail_def split: prod.splits)

lemma with_own_inv:
  assumes "prep_inv P B log s"
    and "\<And>l r o' l'. f opts l = (r, o', l') \<Longrightarrow> adds Q l l'" and "\<And>c. Q c \<Longrightarrow> P c"
  shows "prep_inv P B log (snd (with_own f opts s))"
  using assms(1) adds_mono [OF assms(2,3)]
  by (cases s; cases "f opts (snd s)") (auto simp: prep_inv_def with_own_def elim: adds_trans)

lemma with_procsys_inv:
  assumes "prep_inv P B log s"
    and "\<And>b l r o' l'. f (Some b) l = (r, o', l') \<Longrightarrow> adds (Q b) l l'"
    and "\<And>b l r o' l'. f (Some b) l = (r, o', l') \<Longrightarrow> o' \<in> {Some b, Some (strsep_clobber b)}"
    and "\<And>b c. B b \<Longrightarrow> Q b c \<Longrightarrow> P c" and "\<And>b. B b \<Longrightarrow> B (strsep_clobber b)"
  shows "prep_inv P B log (snd (with_procsys f s))"
proof (cases s)
  case (Pair b l)
  obtain r o' l' where f: "f (Some b) l = (r, o', l')" by (meson prod_cases3)
  have B: "B b" using assms(1) Pair by (simp add: prep_inv_def)
  have "adds P l l'" using assms(2) [OF f] assms(4) [OF B] by (rule adds_mono)
  then show ?thesis
    using assms(1) Pair f B assms(3) [OF f] assms(5) [OF B]
    by (auto simp: prep_inv_def with_procsys_def elim: adds_trans)
qed

lemma do_symlink_inv:
  "prep_inv P B log s \<Longrightarrow> (\<And>t l. P (CSymlink t l)) \<Longrightarrow>
     prep_inv P B log (snd (do_symlink env target linkpath s))"
  by (cases s) (auto simp: prep_inv_def do_symlink_def Let_def intro: adds_trans)

lemma do_remount_step_inv:
  assumes "prep_inv P B log s" and "\<And>src flags eopts c. raw_call tgt src flags eopts c \<Longrightarrow> P c"
  shows "prep_inv P B log (snd (case s of (b, log) \<Rightarrow> case do_remount env tgt opts log of (r, log) \<Rightarrow> (r, b, log)))"
proof (cases s)
  case (Pair b l)
  obtain r l' where r: "do_remount env tgt opts l = (r, l')" by (meson surj_pair)
  then obtain src flags eopts where "adds (raw_call tgt src flags eopts) l l'"
    using do_remount_adds by blast
  then have "adds P l l'" using assms(2) by (rule adds_mono)
  with assms(1) Pair r show ?thesis by (auto simp: prep_inv_def elim: adds_trans)
qed

lemma do_try_buffer:
  "do_try env tgt src fstype (Some b) log = (r, o', log') \<Longrightarrow> o' \<in> {Some b, Some (strsep_clobber b)}"
  by (auto simp: do_try_def do_mount_def parse_mntopts_def split: if_splits prod.splits)

lemma do_try_maybe_buffer:
  "do_try_maybe env tgt src fstype (Some b) log = (r, o', log') \<Longrightarrow> o' \<in> {Some b, Some (strsep_clobber b)}"
  by (auto simp: do_try_maybe_def split: if_splits option.splits dest: do_try_buffer)

lemma prepare_mounts_inv:
  assumes misc: "\<And>d m. P (CMkdir d m)"
    and raw: "\<And>tgt src flags eopts c. tgt \<noteq> ''/sys'' \<Longrightarrow> raw_call tgt src flags eopts c \<Longrightarrow> P c"
    and sys: "\<And>b c. B b \<Longrightarrow> raw_call ''/sys'' ''sysfs'' (opts_flags (Some b)) (opts_eopts (Some b)) c \<Longrightarrow> P c"
    and clob: "\<And>b. B b \<Longrightarrow> B (strsep_clobber b)"
    and s: "prep_inv P B log s"
  shows "prep_inv P B log (snd (prepare_mounts env root_opts s))"
  unfolding prepare_mounts_def Let_def
proof (intro or_fail_inv [where I = "prep_inv P B log"])
  show "prep_inv P B log (snd (case s of (b, log) \<Rightarrow> case do_remount env ''/'' root_opts log of (r, log) \<Rightarrow> (r, b, log)))"
    using s by (rule do_remount_step_inv) (rule raw, simp_all)
next
  fix s1
  assume "prep_inv P B log s1"
  then show "prep_inv P B log (snd (with_procsys (do_try env ''/sys'' ''sysfs'' ''sysfs'') s1))"
    by (rule with_procsys_inv [OF _ do_try_adds do_try_buffer]) (assumption | rule sys clob)+
next
  fix s2
  assume "prep_inv P B log s2"
  then show "prep_inv P B log (snd (with_own (do_try env ''/dev'' ''dev'' ''devtmpfs'') (Some ''mode=0755,nosuid'') s2))"
    by (rule with_own_inv) (erule do_try_adds, rule raw, simp_all)
next
  fix s3
  assume "prep_inv P B log s3"
  then have "prep_inv P B log (fst s3, snd s3 @ [CMkdir ''/dev/pts'' 0x1ED, CMkdir ''/dev/shm'' 0x1ED])"
    by (auto simp: prep_inv_def misc intro: adds_trans)
  then show "prep_inv P B log (snd (with_own (do_try env ''/dev/pts'' ''devpts'' ''devpts'')
      (Some (pts_opts (e_getgrnam env (snd (fst s3, snd s3 @ [CMkdir ''/dev/pts'' 0x1ED, CMkdir ''/dev/shm'' 0x1ED])) ''tty'')))
      (fst s3, snd s3 @ [CMkdir ''/dev/pts'' 0x1ED, CMkdir ''/dev/shm'' 0x1ED])))"
    by (rule with_own_inv) (erule do_try_adds, rule raw, simp_all)
next
  fix s4
  assume "prep_inv P B log s4"
  then show "prep_inv P B log (snd (with_own (do_try env ''/dev/shm'' ''shm'' ''tmpfs'') (Some ''mode=1777,nosuid,nodev'') s4))"
    by (rule with_own_inv) (erule do_try_adds, rule raw, simp_all)
qed

lemma prepare_links_inv:
  assumes "\<And>t l. P (CSymlink t l)" and "prep_inv P B log s"
  shows "prep_inv P B log (snd (prepare_links env s))"
  unfolding prepare_links_def
  by (intro or_fail_inv [where I = "prep_inv P B log"] do_symlink_inv assms) assumption+

lemma prepare_aux_inv:
  assumes raw: "\<And>tgt src flags eopts c. tgt \<noteq> ''/sys'' \<Longrightarrow> raw_call tgt src flags eopts c \<Longrightarrow> P c"
    and clob: "\<And>b. B b \<Longrightarrow> B (strsep_clobber b)"
    and s: "prep_inv P B log s"
  shows "prep_inv P B log (snd (prepare_aux env s))"
  unfolding prepare_aux_def
proof (intro or_fail_inv [where I = "prep_inv P B log"])
  show "prep_inv P B log (snd (with_own (do_try_maybe env ''/sys/kernel/security'' ''securityfs'' ''securityfs'') None s))"
    using s by (rule with_own_inv) (erule do_try_maybe_adds, rule raw, simp_all)
next
  fix s1
  assume "prep_inv P B log s1"
  then show "prep_inv P B log (snd (with_procsys (do_try_maybe env ''/sys/firmware/efi/efivars'' ''efivarfs'' ''efivarfs'') s1))"
    by (rule with_procsys_inv [OF _ do_try_maybe_adds do_try_maybe_buffer])
      (assumption | rule clob | (erule raw [rotated], simp))+
next
  fix s2
  assume "prep_inv P B log s2"
  then show "prep_inv P B log (snd (with_own (do_try_maybe env ''/sys/fs/selinux'' ''selinuxfs'' ''selinuxfs'') None s2))"
    by (rule with_own_inv) (erule do_try_maybe_adds, rule raw, simp_all)
qed simp

text \<open>Everything after the mount of \<open>/proc\<close>.\<close>

lemma prepare_rest_inv:
  assumes "\<And>t l. P (CSymlink t l)" and "\<And>d m. P (CMkdir d m)"
    and "\<And>tgt src flags eopts c. tgt \<noteq> ''/sys'' \<Longrightarrow> raw_call tgt src flags eopts c \<Longrightarrow> P c"
    and "\<And>b c. B b \<Longrightarrow> raw_call ''/sys'' ''sysfs'' (opts_flags (Some b)) (opts_eopts (Some b)) c \<Longrightarrow> P c"
    and "\<And>b. B b \<Longrightarrow> B (strsep_clobber b)"
    and "prep_inv P B log (snd rs)"
  shows "prep_inv P B log (snd (or_fail rs (\<lambda>s. or_fail (prepare_mounts env root_opts s) (\<lambda>s.
    or_fail (prepare_links env s) (prepare_aux env)))))"
  using assms(6)
  by (intro or_fail_inv [where I = "prep_inv P B log"] prepare_mounts_inv prepare_links_inv prepare_aux_inv)
    (use assms(1-5) in blast)+

lemma do_prepare_adds_clean: "do_prepare env ro log = (r, log') \<Longrightarrow> adds clean_call log log'"
proof -
  assume p: "do_prepare env ro log = (r, log')"
  have "prep_inv clean_call (\<lambda>_. True) log
     (snd (with_procsys (do_try env ''/proc'' ''proc'' ''proc'') (''nosuid,noexec,nodev'', log @ [CUmask 0])))"
    by (rule with_procsys_inv [OF _ do_try_adds do_try_buffer])
      (auto simp: prep_inv_def intro: raw_call_clean)
  from prepare_rest_inv [OF _ _ _ _ _ this, where env = env and root_opts = ro]
  show ?thesis
    using p raw_call_clean by (auto simp: do_prepare_def prep_inv_def split: prod.splits)
qed

lemma do_umount_adds: "do_umount env tgt opts log = (r, log') \<Longrightarrow> adds clean_call log log'"
  by (auto simp: do_umount_def Let_def)

lemma do_mount_clean: "do_mount env tgt src fstype opts log = (r, o', log') \<Longrightarrow> adds clean_call log log'"
  by (drule do_mount_adds, erule adds_mono, erule raw_call_clean)

lemma do_try_clean: "do_try env tgt src fstype opts log = (r, o', log') \<Longrightarrow> adds clean_call log log'"
  by (drule do_try_adds, erule adds_mono, erule raw_call_clean)

lemma do_remount_clean: "do_remount env tgt opts log = (r, log') \<Longrightarrow> adds clean_call log log'"
  by (drule do_remount_adds, elim exE, erule adds_mono, erule raw_call_clean)

lemma do_root_rw_clean: "do_root_rw env log = (r, log') \<Longrightarrow> adds clean_call log log'"
  by (drule do_root_rw_adds, elim exE, erule adds_mono, erule raw_call_clean)

lemmas mnt_ops_clean = do_umount_adds do_mount_clean do_try_clean do_remount_clean do_root_rw_clean
  do_prepare_adds_clean

text \<open>
  C11: for every command line and every behaviour of the kernel, no \<open>mount\<close> call of the helper
  mixes propagation flags with others: a call carries no propagation flag, or nothing but
  propagation flags and \<open>MS_REC\<close> and then no data.
\<close>

theorem mnt_main_clean: "list_all clean_call (snd (snd (mnt_main env argv [])))"
proof -
  have "adds clean_call [] (snd (snd (mnt_main env argv [])))"
    by (auto simp: mnt_main_def Let_def split: prod.splits dest: mnt_ops_clean)
  then show ?thesis by (auto simp: adds_def)
qed

lemma clobbered_parse:
  "parse_mntopts (Some (strsep_clobber ''nosuid,noexec,nodev'')) MS_SILENT [] =
     (MS_SILENT OR MS_NOSUID, [], Some (strsep_clobber ''nosuid,noexec,nodev''))"
  by code_simp

lemma clobbered_again:
  "strsep_clobber (strsep_clobber ''nosuid,noexec,nodev'') = strsep_clobber ''nosuid,noexec,nodev''"
  by code_simp

text \<open>
  C40: when \<open>do_prepare\<close> has to mount \<open>/proc\<close>, \<open>strsep\<close> has cut the shared buffer
  \<open>procsys_opts\<close> at its first comma by the time \<open>/sys\<close> is mounted: every mount of \<open>/sys\<close>
  then has the flag \<open>MS_NOSUID\<close> only, without \<open>MS_NOEXEC\<close> and \<open>MS_NODEV\<close>.
\<close>

theorem sysfs_options_lost:
  assumes "do_is env ''/proc'' (log @ [CUmask 0]) \<noteq> 0"
    and p: "do_prepare env root_opts log = (r, log')"
    and c: "CMount src ''/sys'' fstype flags data res \<in> set (drop (length log) log')"
  shows "flags = MS_SILENT OR MS_NOSUID"
proof -
  let ?P = "\<lambda>c. \<forall>src fstype flags data res.
     c = CMount src ''/sys'' fstype flags data res \<longrightarrow> flags = MS_SILENT OR MS_NOSUID"
  let ?B = "\<lambda>b. b = strsep_clobber ''nosuid,noexec,nodev''"
  let ?proc = "with_procsys (do_try env ''/proc'' ''proc'' ''proc'') (''nosuid,noexec,nodev'', log @ [CUmask 0])"
  have raw: "?P c" if "tgt \<noteq> ''/sys''" and "raw_call tgt src flags eopts c" for tgt src flags eopts c
    using that by (cases c) auto
  have sys: "?P c" if "?B b" and "raw_call ''/sys'' ''sysfs'' (opts_flags (Some b)) (opts_eopts (Some b)) c" for b c
    using that by (cases c) (auto simp: clobbered_parse mount_flags_def pmask_def)
  have clob: "?B (strsep_clobber b)" if "?B b" for b
    by (simp only: that clobbered_again)
  obtain r1 o1 l1 where t: "do_try env ''/proc'' ''proc'' ''proc'' (Some ''nosuid,noexec,nodev'') (log @ [CUmask 0])
      = (r1, o1, l1)" by (meson prod_cases3)
  then have "o1 = Some (strsep_clobber ''nosuid,noexec,nodev'')"
    using assms(1) by (auto simp: do_try_def do_mount_def parse_mntopts_def split: prod.splits)
  moreover have "adds ?P (log @ [CUmask 0]) l1"
    using do_try_adds [OF t] by (rule adds_mono) (erule raw [rotated], simp)
  ultimately have "prep_inv ?P ?B log (snd ?proc)"
    using t by (auto simp: prep_inv_def with_procsys_def elim: adds_snocD)
  from prepare_rest_inv [OF _ _ raw sys clob this, where env = env and root_opts = root_opts]
  have "adds ?P log log'"
    using p by (auto simp: do_prepare_def prep_inv_def split: prod.splits)
  from adds_new [OF this c] show ?thesis by simp
qed

section \<open>Mandatory mounts\<close>

fun mounts_on :: "string \<Rightarrow> mnt_call \<Rightarrow> bool" where
  "mounts_on tgt (CMount _ t _ _ _ r) \<longleftrightarrow> t = tgt \<and> r = None"
| "mounts_on tgt (CHelper _ _ _ t) \<longleftrightarrow> t = tgt"
| "mounts_on tgt _ \<longleftrightarrow> False"

definition covered :: "mnt_env \<Rightarrow> string \<Rightarrow> mnt_log \<Rightarrow> mnt_log \<Rightarrow> bool" where
  "covered env tgt log log' \<longleftrightarrow>
     (\<exists>l. prefix log l \<and> prefix l log' \<and> do_is env tgt l = 0) \<or>
     (\<exists>c \<in> set (drop (length log) log'). mounts_on tgt c)"

lemma covered_mono:
  assumes "covered env tgt l1 l2" and "prefix l0 l1" and "prefix l1 l2" and "prefix l2 l3"
  shows "covered env tgt l0 l3"
  using assms unfolding covered_def
  by (auto simp: prefix_def intro: prefix_order.trans) (metis append.assoc)

lemma do_mount_raw_covers:
  assumes "do_mount_raw env tgt src fstype flags eopts False log = (0, log')"
  shows "covered env tgt log log'"
proof -
  have h: "covered env tgt log l'"
    if "do_mount_helper env tgt src fstype fl eopts l = (0, l')" "prefix log l" for fl l l'
    using that by (auto simp: do_mount_helper_def Let_def covered_def prefix_def split: if_splits)
  show ?thesis
    using assms
    by (auto simp: do_mount_raw_def sys_mount_def Let_def covered_def split: if_splits option.splits prod.splits
        dest!: h)
qed

lemma do_try_covers:
  "do_try env tgt src fstype opts log = (0, o', log') \<Longrightarrow> covered env tgt log log'"
  by (auto simp: do_try_def do_mount_def covered_def split: if_splits prod.splits
      dest: do_mount_raw_covers [unfolded covered_def])


lemma or_fail_0: "or_fail rs k = (0, s') \<longleftrightarrow> (\<exists>s. rs = (0, s) \<and> k s = (0, s'))"
  by (cases rs) (auto simp: or_fail_def)

lemma with_own_0:
  "with_own f opts s = (0, s') \<longleftrightarrow> (\<exists>o' l'. f opts (snd s) = (0, o', l') \<and> s' = (fst s, l'))"
  by (cases s; cases "f opts (snd s)") (auto simp: with_own_def)

lemma with_procsys_0:
  "with_procsys f s = (0, s') \<Longrightarrow> \<exists>o'. f (Some (fst s)) (snd s) = (0, o', snd s')"
  by (cases s; cases "f (Some (fst s)) (snd s)") (auto simp: with_procsys_def)

lemma do_try_0: "do_try env tgt src fstype opts log = (0, o', log') \<Longrightarrow> covered env tgt log log' \<and> prefix log log'"
  using do_try_covers do_try_adds adds_prefix by blast

definition covers :: "mnt_env \<Rightarrow> string set \<Rightarrow> mnt_log \<Rightarrow> mnt_log \<Rightarrow> bool" where
  "covers env T log log' \<longleftrightarrow> prefix log log' \<and> (\<forall>t \<in> T. covered env t log log')"

lemma covers_trans: "covers env T l1 l2 \<Longrightarrow> covers env U l2 l3 \<Longrightarrow> covers env (T \<union> U) l1 l3"
  unfolding covers_def by (auto intro: covered_mono prefix_order.trans)

lemma covers_prefix: "prefix l1 l2 \<Longrightarrow> covers env {} l1 l2"
  by (simp add: covers_def)

lemma do_try_covers_set: "do_try env tgt src fstype opts log = (0, o', log') \<Longrightarrow> covers env {tgt} log log'"
  by (auto simp: covers_def dest: do_try_0)

lemma do_remount_prefix: "do_remount env tgt opts log = (r, log') \<Longrightarrow> prefix log log'"
  by (auto dest: do_remount_adds adds_prefix)

lemma prepare_mounts_covers:
  assumes "prepare_mounts env ro s = (0, s')"
  shows "covers env {''/sys'', ''/dev'', ''/dev/pts'', ''/dev/shm''} (snd s) (snd s')"
proof -
  obtain l1 s2 l3 l4 o3 o4 o5 o2 l5 where
    "prefix (snd s) l1"
    and "do_try env ''/sys'' ''sysfs'' ''sysfs'' (Some (fst s)) l1 = (0, o2, snd s2)"
    and "do_try env ''/dev'' ''dev'' ''devtmpfs'' (Some ''mode=0755,nosuid'') (snd s2) = (0, o3, l3)"
    and "do_try env ''/dev/pts'' ''devpts'' ''devpts'' o4
      (l3 @ [CMkdir ''/dev/pts'' 0x1ED, CMkdir ''/dev/shm'' 0x1ED]) = (0, o5, l4)"
    and "do_try env ''/dev/shm'' ''shm'' ''tmpfs'' (Some ''mode=1777,nosuid,nodev'') l4 = (0, l5, snd s')"
    using assms
    by (cases s) (auto simp: prepare_mounts_def or_fail_0 with_own_0 Let_def split: prod.splits
        dest!: with_procsys_0 do_remount_prefix)
  then have "covers env {} (snd s) l1" "covers env {''/sys''} l1 (snd s2)" "covers env {''/dev''} (snd s2) l3"
    "covers env {} l3 (l3 @ [CMkdir ''/dev/pts'' 0x1ED, CMkdir ''/dev/shm'' 0x1ED])"
    "covers env {''/dev/pts''} (l3 @ [CMkdir ''/dev/pts'' 0x1ED, CMkdir ''/dev/shm'' 0x1ED]) l4"
    "covers env {''/dev/shm''} l4 (snd s')"
    by (auto intro: do_try_covers_set covers_prefix)
  then have "covers env ({} \<union> ({''/sys''} \<union> ({''/dev''} \<union> ({} \<union> ({''/dev/pts''} \<union> {''/dev/shm''}))))) (snd s) (snd s')"
    by (intro covers_trans)
  then show ?thesis by (simp add: insert_commute)
qed

lemma prepare_tail_prefix:
  "prefix (snd s) (snd (snd (or_fail (prepare_links env s) (prepare_aux env))))"
proof -
  have "prep_inv (\<lambda>_. True) (\<lambda>_. True) (snd s) (snd (or_fail (prepare_links env s) (prepare_aux env)))"
    by (intro or_fail_inv [where I = "prep_inv (\<lambda>_. True) (\<lambda>_. True) (snd s)"]
        prepare_links_inv prepare_aux_inv) (simp_all add: prep_inv_def)
  then show ?thesis by (auto simp: prep_inv_def dest: adds_prefix)
qed

text \<open>
  C5: when \<open>do_prepare\<close> returns 0, each of the mandatory pseudo-filesystems was found mounted
  at some point of the run, or was mounted by a successful \<open>mount\<close> call or by a mount helper.
\<close>

theorem do_prepare_covers:
  assumes "do_prepare env root_opts log = (0, log')"
  shows "covers env {''/proc'', ''/sys'', ''/dev'', ''/dev/pts'', ''/dev/shm''} log log'"
proof -
  obtain s1 s2 b where
    1: "with_procsys (do_try env ''/proc'' ''proc'' ''proc'') (''nosuid,noexec,nodev'', log @ [CUmask 0]) = (0, s1)"
    and 2: "prepare_mounts env root_opts s1 = (0, s2)"
    and 3: "or_fail (prepare_links env s2) (prepare_aux env) = (0, b, log')"
    using assms by (auto simp: do_prepare_def or_fail_0 split: prod.splits)
  have "covers env {} log (log @ [CUmask 0])" by (simp add: covers_prefix)
  moreover have "covers env {''/proc''} (log @ [CUmask 0]) (snd s1)"
    using with_procsys_0 [OF 1] by (auto intro: do_try_covers_set)
  moreover have "covers env {''/sys'', ''/dev'', ''/dev/pts'', ''/dev/shm''} (snd s1) (snd s2)"
    using 2 by (rule prepare_mounts_covers)
  moreover have "covers env {} (snd s2) log'"
    using prepare_tail_prefix [of s2 env] 3 by (simp add: covers_prefix)
  ultimately have "covers env ({} \<union> ({''/proc''} \<union> ({''/sys'', ''/dev'', ''/dev/pts'', ''/dev/shm''} \<union> {}))) log log'"
    by (intro covers_trans)
  then show ?thesis by (simp add: insert_commute)
qed

section \<open>The root remount\<close>

fun mount_flag_set :: "u64 \<Rightarrow> mnt_call \<Rightarrow> bool" where
  "mount_flag_set fl (CMount _ _ _ flags _ _) \<longleftrightarrow> flags AND fl \<noteq> 0"
| "mount_flag_set fl _ \<longleftrightarrow> False"

lemma mount_prop_flags_sub:
  assumes "flags AND m = 0"
  shows "mount_flags flags AND m = 0" and "prop_flags flags AND m = 0"
proof -
  have "(flags AND k) AND m = 0" for k
    using assms by (metis and.commute and.left_commute and_zero_eq)
  with assms show "mount_flags flags AND m = 0" and "prop_flags flags AND m = 0"
    by (simp_all add: mount_flags_def prop_flags_def)
qed

lemma raw_call_no_rdonly:
  assumes "raw_call tgt src (flags AND NOT MS_RDONLY) eopts c"
  shows "\<not> mount_flag_set MS_RDONLY c"
proof -
  have "(flags AND NOT MS_RDONLY) AND MS_RDONLY = 0"
    by (auto simp: bit_eq_iff bit_simps)
  from mount_prop_flags_sub [OF this] assms show ?thesis
    by (cases c) auto
qed

text \<open>
  C23: when the root is not in \<open>fstab\<close>, \<open>do_root_rw\<close> never passes \<open>MS_RDONLY\<close> to the kernel.
\<close>

theorem do_root_rw_clears_rdonly:
  assumes "case e_mntent env log ''/etc/fstab'' of Inl e \<Rightarrow> e = ENOENT | Inr mns \<Rightarrow> find_mnt ''/'' mns = None"
    and "do_root_rw env log = (r, log')"
  shows "adds (\<lambda>c. \<not> mount_flag_set MS_RDONLY c) log log'"
proof -
  have "adds (\<lambda>c. \<not> mount_flag_set MS_RDONLY c) l l'"
    if "do_mount_raw env tgt src fstype (flags AND NOT MS_RDONLY) eopts False l = (q, l')" for tgt src fstype flags eopts l q l'
    using do_mount_raw_adds [OF that] by (rule adds_mono) (rule raw_call_no_rdonly)
  with assms show ?thesis
    by (auto simp: do_root_rw_def Let_def split: sum.splits option.splits prod.splits if_splits)
qed

text \<open>
  the unmount flags are exactly those whose names occur in the comma-separated list.
\<close>

lemma parse_umntopts_spec:
  "parse_umntopts (Some b) =
     (if ''force'' \<in> set (strsep_loop (cstr b) '','') then MNT_FORCE else 0) OR
     (if ''detach'' \<in> set (strsep_loop (cstr b) '','') then MNT_DETACH else 0)"
proof -
  have "fold (\<lambda>s flags. if s = ''force'' then flags OR MNT_FORCE
        else if s = ''detach'' then flags OR MNT_DETACH else flags) toks f =
      f OR (if ''force'' \<in> set toks then MNT_FORCE else 0) OR (if ''detach'' \<in> set toks then MNT_DETACH else 0)" for toks f
    by (induction toks arbitrary: f) (auto simp: bit_eq_iff bit_simps)
  from this [where f = 0] show ?thesis by (simp add: parse_umntopts_def)
qed

section \<open>Round trip of the printable flags\<close>

definition plain_bits :: "nat list" where
  "plain_bits = [0, 1, 2, 3, 4, 5, 6, 7, 8, 10, 11, 13, 15, 21, 23, 24, 25]"

definition plain_flags :: u64 where
  "plain_flags = MS_RDONLY OR MS_NOSUID OR MS_NODEV OR MS_NOEXEC OR MS_SYNCHRONOUS OR MS_REMOUNT OR
     MS_MANDLOCK OR MS_DIRSYNC OR MS_NOSYMFOLLOW OR MS_NOATIME OR MS_NODIRATIME OR MS_MOVE OR
     MS_SILENT OR MS_RELATIME OR MS_I_VERSION OR MS_STRICTATIME OR MS_LAZYTIME"

lemma plain_flags_bits: "plain_flags = foldr (\<lambda>k f. 2 ^ k OR f) plain_bits 0"
  by code_simp

lemma bit_foldr_exp: "bit (foldr (\<lambda>k f. 2 ^ k OR f) ks 0 :: u64) n \<longleftrightarrow> n \<in> set ks \<and> n < 64"
  by (induction ks) (auto simp: bit_simps)

lemma bit_plain_flags: "bit plain_flags n \<Longrightarrow> n \<in> set plain_bits"
  by (simp add: plain_flags_bits bit_foldr_exp)

lemma bit_and_exp: "(w :: u64) AND 2 ^ k \<noteq> 0 \<longleftrightarrow> bit w k"
  by (metis and_exp_eq_0_iff_not_bit)

lemma mask_bits:
  "bit (MS_AMASK) n \<longleftrightarrow> n \<in> {10, 21}" "bit (MS_TMASK) n \<longleftrightarrow> n \<in> {5, 12, 13}"
proof -
  have a: "MS_AMASK = foldr (\<lambda>k f. 2 ^ k OR f) [10, 21] 0" by code_simp
  have t: "MS_TMASK = foldr (\<lambda>k f. 2 ^ k OR f) [5, 12, 13] 0" by code_simp
  show "bit (MS_AMASK) n \<longleftrightarrow> n \<in> {10, 21}"
    unfolding a bit_foldr_exp by auto
  show "bit (MS_TMASK) n \<longleftrightarrow> n \<in> {5, 12, 13}"
    unfolding t bit_foldr_exp by auto
qed

text \<open>
  The shape of the table: an entry is inverted, or names no plain flag, or sets one plain
  flag and clears that flag or the group of mutually exclusive flags it belongs to.
\<close>

definition plain_entry :: "mntopt \<Rightarrow> bool" where
  "plain_entry ko \<longleftrightarrow>
     mo_invert ko \<or> plain_flags AND mo_flagset ko = 0 \<or>
     list_ex (\<lambda>k. mo_flagset ko = 2 ^ k) plain_bits \<and>
     (mo_flagmask ko = mo_flagset ko \<or>
      mo_flagmask ko \<in> {MS_AMASK, MS_TMASK} \<and> mo_flagset ko AND mo_flagmask ko = mo_flagset ko)"

lemma known_opts_plain: "list_all plain_entry known_opts"
  by code_simp

lemma known_opts_has_plain:
  "list_all (\<lambda>k. list_ex (\<lambda>ko. \<not> mo_invert ko \<and> mo_flagset ko = 2 ^ k \<and>
     mo_flagset ko \<notin> {MS_PRIVATE, MS_SHARED, MS_SLAVE, MS_UNBINDABLE, MS_REC}) known_opts) plain_bits"
  by code_simp

definition roundtrip_ok :: "u64 \<Rightarrow> bool" where
  "roundtrip_ok flags \<longleftrightarrow> flags AND plain_flags = flags \<and>
     \<not> (flags AND MS_NOATIME \<noteq> 0 \<and> flags AND MS_RELATIME \<noteq> 0) \<and>
     \<not> (flags AND MS_REMOUNT \<noteq> 0 \<and> flags AND MS_MOVE \<noteq> 0)"

lemma roundtrip_ok_bits:
  assumes "roundtrip_ok flags"
  shows "bit flags n \<Longrightarrow> bit plain_flags n" "\<not> (bit flags 10 \<and> bit flags 21)" "\<not> (bit flags 5 \<and> bit flags 13)"
    "\<not> bit flags 12"
proof -
  from assms have f: "flags = flags AND plain_flags" by (simp add: roundtrip_ok_def)
  show "bit flags n \<Longrightarrow> bit plain_flags n" by (subst (asm) f) (simp add: bit_simps)
  show "\<not> (bit flags 10 \<and> bit flags 21)"
    using assms bit_and_exp [of flags 10] bit_and_exp [of flags 21] by (auto simp: roundtrip_ok_def)
  show "\<not> (bit flags 5 \<and> bit flags 13)"
    using assms bit_and_exp [of flags 5] bit_and_exp [of flags 13] by (auto simp: roundtrip_ok_def)
  show "\<not> bit flags 12"
    by (subst f) (auto simp: bit_simps dest!: bit_plain_flags simp: plain_bits_def)
qed

lemma unskipped_plain:
  assumes ok: "roundtrip_ok flags" and ko: "ko \<in> set known_opts" and ns: "\<not> unparse_skip flags ko"
  obtains k where "mo_flagset ko = 2 ^ k" "bit flags k" "\<not> mo_invert ko"
    "\<And>n. bit flags n \<Longrightarrow> bit (mo_flagmask ko) n \<Longrightarrow> n = k"
proof -
  from known_opts_plain ko have p: "plain_entry ko" by (simp add: list_all_iff)
  from ns have inv: "\<not> mo_invert ko" and fs: "flags AND mo_flagset ko \<noteq> 0"
    by (auto simp: unparse_skip_def)
  have "plain_flags AND mo_flagset ko \<noteq> 0"
  proof
    assume "plain_flags AND mo_flagset ko = 0"
    moreover have "flags AND mo_flagset ko = flags AND (plain_flags AND mo_flagset ko)"
      using ok by (metis and.assoc roundtrip_ok_def)
    ultimately show False using fs by simp
  qed
  with p inv obtain k where k: "mo_flagset ko = 2 ^ k"
    and m: "mo_flagmask ko = mo_flagset ko \<or>
      mo_flagmask ko \<in> {MS_AMASK, MS_TMASK} \<and> mo_flagset ko AND mo_flagmask ko = mo_flagset ko"
    by (auto simp: plain_entry_def list_ex_iff)
  have b: "bit flags k" using fs k by (simp add: bit_and_exp)
  then have "k < 64" using bit_imp_le_length by fastforce
  have "n = k" if "bit flags n" "bit (mo_flagmask ko) n" for n
    using m
  proof
    assume "mo_flagmask ko = mo_flagset ko"
    with that k show ?thesis by (auto simp: bit_simps)
  next
    assume mm: "mo_flagmask ko \<in> {MS_AMASK, MS_TMASK} \<and> mo_flagset ko AND mo_flagmask ko = mo_flagset ko"
    then have "bit (mo_flagset ko AND mo_flagmask ko) k"
      using k \<open>k < 64\<close> by (simp add: bit_simps)
    then have "bit (mo_flagmask ko) k" by (simp add: bit_simps)
    with mm that b roundtrip_ok_bits(2-4) [OF ok] show ?thesis by (auto simp: mask_bits)
  qed
  with that k b inv show ?thesis by blast
qed

lemma bit_apply_opt:
  "\<not> mo_invert ko \<Longrightarrow> bit (apply_opt ko f) n \<longleftrightarrow> bit (mo_flagset ko) n \<or> bit f n \<and> \<not> bit (mo_flagmask ko) n"
  by (auto simp: apply_opt_def Let_def bit_simps dest: bit_imp_le_length)

lemma fold_apply_unskipped:
  assumes ok: "roundtrip_ok flags" and "set kos \<subseteq> set known_opts" and "\<forall>ko \<in> set kos. \<not> unparse_skip flags ko"
  shows "bit (fold apply_opt kos 0) n \<longleftrightarrow> (\<exists>ko \<in> set kos. bit (mo_flagset ko) n)"
  using assms(2,3)
proof (induction kos rule: rev_induct)
  case Nil
  show ?case by simp
next
  case (snoc ko kos)
  then obtain k where k: "mo_flagset ko = 2 ^ k" "bit flags k" "\<not> mo_invert ko"
    "\<And>n. bit flags n \<Longrightarrow> bit (mo_flagmask ko) n \<Longrightarrow> n = k"
    using unskipped_plain [OF ok, of ko] by (metis in_set_conv_decomp subsetD)
  have k64: "k < 64" using k(2) bit_imp_le_length by fastforce
  have sub: "bit flags n" if ko': "ko' \<in> set kos" and bn: "bit (mo_flagset ko') n" for ko'
  proof -
    from snoc.prems ko' have "ko' \<in> set known_opts" "\<not> unparse_skip flags ko'" by auto
    with ok obtain k' where "mo_flagset ko' = 2 ^ k'" "bit flags k'"
      by (rule unskipped_plain)
    with bn show ?thesis by (auto simp: bit_simps)
  qed
  have IH: "bit (fold apply_opt kos 0) n \<longleftrightarrow> (\<exists>ko \<in> set kos. bit (mo_flagset ko) n)"
    using snoc by simp
  show ?case
    using k(1,3,4) k64 sub IH by (auto simp: bit_apply_opt bit_simps)
qed

lemma fold_apply_flags:
  assumes ok: "roundtrip_ok flags"
  shows "fold apply_opt (filter (\<lambda>ko. \<not> unparse_skip flags ko) known_opts) 0 = flags"
proof (rule bit_word_eqI)
  fix n
  assume "n < LENGTH(64)"
  have "bit (fold apply_opt (filter (\<lambda>ko. \<not> unparse_skip flags ko) known_opts) 0) n \<longleftrightarrow>
     (\<exists>ko \<in> set (filter (\<lambda>ko. \<not> unparse_skip flags ko) known_opts). bit (mo_flagset ko) n)"
    by (rule fold_apply_unskipped [OF ok]) auto
  also have "\<dots> \<longleftrightarrow> bit flags n"
  proof
    assume "\<exists>ko \<in> set (filter (\<lambda>ko. \<not> unparse_skip flags ko) known_opts). bit (mo_flagset ko) n"
    then show "bit flags n" by (auto simp: bit_simps elim!: unskipped_plain [OF ok])
  next
    assume b: "bit flags n"
    then have "n \<in> set plain_bits" using roundtrip_ok_bits(1) [OF ok] bit_plain_flags by blast
    with known_opts_has_plain obtain ko where "ko \<in> set known_opts" "\<not> mo_invert ko" "mo_flagset ko = 2 ^ n"
      "mo_flagset ko \<notin> {MS_PRIVATE, MS_SHARED, MS_SLAVE, MS_UNBINDABLE, MS_REC}"
      by (auto simp: list_all_iff list_ex_iff)
    moreover from this b have "\<not> unparse_skip flags ko"
      using bit_and_exp [of flags n] by (auto simp: unparse_skip_def)
    ultimately show "\<exists>ko \<in> set (filter (\<lambda>ko. \<not> unparse_skip flags ko) known_opts). bit (mo_flagset ko) n"
      using \<open>n < LENGTH(64)\<close> by (auto simp: bit_simps)
  qed
  finally show "bit (fold apply_opt (filter (\<lambda>ko. \<not> unparse_skip flags ko) known_opts) 0) n \<longleftrightarrow> bit flags n" .
qed


subsection \<open>Printing and splitting option strings\<close>

lemma fold_unparse:
  "fold (\<lambda>ko ret. if S ko then ret else add_eopt ret (mo_name ko)) kos acc =
     foldl add_eopt acc (map mo_name (filter (\<lambda>ko. \<not> S ko) kos))"
  by (induction kos arbitrary: acc) auto

lemma tokens_add_eopt:
  assumes "t \<noteq> []" and "CHR '','' \<notin> set t"
  shows "filter (\<lambda>t. t \<noteq> []) (strsep_loop (add_eopt acc t) '','') =
     filter (\<lambda>t. t \<noteq> []) (strsep_loop acc '','') @ [t]"
proof -
  have "strsep_loop t '','' = [t]" using assms by (intro strsep_loop_no_delim) auto
  with assms(1) show ?thesis by (simp add: add_eopt_def strsep_loop_append)
qed

lemma tokens_foldl_add_eopt:
  assumes "\<forall>t \<in> set ts. t \<noteq> [] \<and> CHR '','' \<notin> set t"
  shows "filter (\<lambda>t. t \<noteq> []) (strsep_loop (foldl add_eopt acc ts) '','') =
     filter (\<lambda>t. t \<noteq> []) (strsep_loop acc '','') @ ts"
  using assms by (induction ts arbitrary: acc) (auto simp: tokens_add_eopt)

lemma fold_parse_nonempty:
  "fold parse_mntopt ts st = fold parse_mntopt (filter (\<lambda>t. t \<noteq> []) ts) st"
proof -
  have "parse_mntopt [] st = st" for st by (cases st) (simp add: parse_mntopt_def)
  then show ?thesis by (induction ts arbitrary: st) auto
qed

lemma fold_parse_known:
  assumes "\<forall>ko \<in> set kos. mo_name ko \<noteq> [] \<and> find_opt (mo_name ko) known_opts = Some ko"
  shows "fold parse_mntopt (map mo_name kos) (flags, eopts) = (fold apply_opt kos flags, eopts)"
  using assms by (induction kos arbitrary: flags) (auto simp: parse_mntopt_def)

lemma known_opts_names:
  "list_all (\<lambda>ko. mo_name ko \<noteq> [] \<and> CHR '','' \<notin> set (mo_name ko) \<and> NUL \<notin> set (mo_name ko) \<and>
     (mo_name ko = ''shared'' \<or> find_opt (mo_name ko) known_opts = Some ko) \<and>
     (mo_name ko = ''shared'' \<longrightarrow> mo_flagset ko = MS_SHARED)) known_opts"
  by code_simp

lemma set_foldl_add_eopt: "set (foldl add_eopt acc ts) \<subseteq> set acc \<union> {CHR '',''} \<union> \<Union> (set ` set ts)"
proof (induction ts arbitrary: acc)
  case (Cons t ts)
  from Cons.IH [of "add_eopt acc t"] show ?case by (auto simp: add_eopt_def split: if_splits)
qed auto



section \<open>Concrete runs\<close>

text \<open>
  A concrete environment for the witnesses: a kernel that boots with only a read-only root,
  where every mount succeeds and appears in \<open>/proc/self/mounts\<close>, without \<open>fstab\<close>, mount
  helpers or auxiliary file systems.
\<close>

fun demo_mounted :: "mnt_call \<Rightarrow> mntent list" where
  "demo_mounted (CMount src tgt fstype flags data None) =
     [\<lparr>mnt_fsname = src, mnt_dir = tgt, mnt_type = fstype, mnt_opts = ''rw'', mnt_freq = 0, mnt_passno = 0\<rparr>]"
| "demo_mounted _ = []"

definition demo_root :: mntent where
  "demo_root = \<lparr>mnt_fsname = ''/dev/sda1'', mnt_dir = ''/'', mnt_type = ''ext4'', mnt_opts = ''ro,relatime'',
     mnt_freq = 0, mnt_passno = 0\<rparr>"

definition demo_dir :: fstat where
  "demo_dir = \<lparr>st_dev = 1, st_ino = 1, st_kind = S_DIR, st_blocks = 0, st_size = 0, st_atime = 0\<rparr>"

definition demo_env :: mnt_env where
  "demo_env = \<lparr>
     e_lstat = (\<lambda>log p. Some demo_dir), e_stat = (\<lambda>log p. None), e_malloc = True,
     e_mntent = (\<lambda>log f. if f = ''/etc/fstab'' then Inl ENOENT
        else Inr (demo_root # concat (map demo_mounted log))),
     e_realpath = (\<lambda>log p. Some p), e_access_x = (\<lambda>log p. False), e_fork = (\<lambda>log. True),
     e_waitpid = (\<lambda>log. []), e_mount = (\<lambda>log src tgt fstype flags data. None),
     e_umount2 = (\<lambda>log t f. None), e_symlink = (\<lambda>log a b. None), e_getgrnam = (\<lambda>log g. None)\<rparr>"

theorem do_prepare_covers_witness:
  "fst (do_prepare demo_env (Some ''rshared'') []) = 0 \<and>
   covers demo_env {''/proc'', ''/sys'', ''/dev'', ''/dev/pts'', ''/dev/shm''} []
     (snd (do_prepare demo_env (Some ''rshared'') []))"
proof -
  have 0: "fst (do_prepare demo_env (Some ''rshared'') []) = 0" by code_simp
  then show ?thesis
    using do_prepare_covers [of demo_env "Some ''rshared''" "[]" "snd (do_prepare demo_env (Some ''rshared'') [])"]
    by (simp add: prod_eq_iff)
qed

theorem sysfs_options_lost_witness:
  "\<exists>flags. CMount ''sysfs'' ''/sys'' ''sysfs'' flags (Some []) None
       \<in> set (drop 0 (snd (do_prepare demo_env (Some ''rshared'') []))) \<and>
     flags = MS_SILENT OR MS_NOSUID"
proof -
  have 1: "do_is demo_env ''/proc'' ([] @ [CUmask 0]) \<noteq> 0" by code_simp
  have 2: "do_prepare demo_env (Some ''rshared'') [] =
      (fst (do_prepare demo_env (Some ''rshared'') []), snd (do_prepare demo_env (Some ''rshared'') []))"
    by simp
  have 3: "CMount ''sysfs'' ''/sys'' ''sysfs'' 0x8002 (Some []) None
      \<in> set (drop (length ([] :: mnt_log)) (snd (do_prepare demo_env (Some ''rshared'') [])))"
    by code_simp
  from sysfs_options_lost [OF 1 2 3] 3 show ?thesis by auto
qed

theorem do_root_rw_clears_rdonly_witness:
  "snd (do_root_rw demo_env []) \<noteq> [] \<and>
   adds (\<lambda>c. \<not> mount_flag_set MS_RDONLY c) [] (snd (do_root_rw demo_env []))"
proof -
  have 1: "case e_mntent demo_env [] ''/etc/fstab'' of Inl e \<Rightarrow> e = ENOENT | Inr mns \<Rightarrow> find_mnt ''/'' mns = None"
    by (simp add: demo_env_def)
  have 2: "do_root_rw demo_env [] = (fst (do_root_rw demo_env []), snd (do_root_rw demo_env []))" by simp
  have 3: "snd (do_root_rw demo_env []) \<noteq> []" by code_simp
  from 3 do_root_rw_clears_rdonly [OF 1 2] show ?thesis by blast
qed

end
