(* ===== verification/Swap.thy ===== *)
theory Swap
  imports Mnt
begin

unbundle bit_operations_syntax

text \<open>
  The swap helper, \<^verbatim>\<open>src/early/helpers/swap.cc\<close>: enabling the swap entries of \<open>/etc/fstab\<close> with their
  flags, and disabling everything in \<open>/proc/swaps\<close> and \<open>/etc/fstab\<close>. The entries of \<open>fstab\<close> are
  given as the list \<open>getmntent\<close> returns; the trace holds the calls of \<open>swapon\<close> and \<open>swapoff\<close>.
\<close>

section \<open>State and environment\<close>

datatype sp_call = SpOn string u32 | SpOff string

text \<open>
  \<open>sp_fstab\<close> is the error number of opening the table, or its entries; \<open>sp_sys\<close> is 0 or the error
  number of a call.
\<close>

record sp_env =
  sp_uid :: nat
  sp_fstab :: "int + mntent list"
  sp_swaps :: "string option"
  sp_stat :: "string \<Rightarrow> fstat option"
  sp_sys :: "sp_call list \<Rightarrow> sp_call \<Rightarrow> int"

abbreviation (input) SWAP_FLAG_PREFER :: u32 where "SWAP_FLAG_PREFER \<equiv> 0x8000"
abbreviation (input) SWAP_FLAG_PRIO_MASK :: nat where "SWAP_FLAG_PRIO_MASK \<equiv> 0x7FFF"
abbreviation (input) SWAP_FLAG_DISCARD :: u32 where "SWAP_FLAG_DISCARD \<equiv> 0x10000"
abbreviation (input) SWAP_FLAG_DISCARD_ONCE :: u32 where "SWAP_FLAG_DISCARD_ONCE \<equiv> 0x20000"
abbreviation (input) SWAP_FLAG_DISCARD_PAGES :: u32 where "SWAP_FLAG_DISCARD_PAGES \<equiv> 0x40000"

section \<open>Entries\<close>

text \<open>\<open>hasmntopt\<close> searches the options for a substring and returns the text from the match on.\<close>

definition hasmntopt :: "mntent \<Rightarrow> string \<Rightarrow> string option" where
  "hasmntopt m opt = map_option snd (strstr (mnt_opts m) opt)"

definition opt_ends :: "string \<Rightarrow> bool" where
  "opt_ends s \<longleftrightarrow> s = [] \<or> hd s = CHR '',''"

definition discard_flags :: "mntent \<Rightarrow> u32" where
  "discard_flags m =
     (case hasmntopt m ''discard'' of
        None \<Rightarrow> 0
      | Some opt \<Rightarrow>
          let opt = drop 7 opt
          in if opt \<noteq> [] \<and> hd opt = CHR ''='' then
               let opt = tl opt
               in if strneq opt ''once'' 4 \<and> opt_ends (drop 4 opt) then SWAP_FLAG_DISCARD OR SWAP_FLAG_DISCARD_ONCE
                  else if strneq opt ''pages'' 5 \<and> opt_ends (drop 5 opt) then SWAP_FLAG_DISCARD OR SWAP_FLAG_DISCARD_PAGES
                  else SWAP_FLAG_DISCARD
             else SWAP_FLAG_DISCARD)"

definition prio_flags :: "mntent \<Rightarrow> u32" where
  "prio_flags m =
     (case hasmntopt m ''pri'' of
        None \<Rightarrow> 0
      | Some opt \<Rightarrow>
          let opt = drop 3 opt
          in if opt \<noteq> [] \<and> hd opt = CHR ''='' then
               (case strtoull (tl opt) of (pval, err) \<Rightarrow>
                  let pval = (if pval > SWAP_FLAG_PRIO_MASK then SWAP_FLAG_PRIO_MASK else pval)
                  in if opt_ends err then SWAP_FLAG_PREFER OR of_nat pval else 0)
             else 0)"

definition swap_flags :: "mntent \<Rightarrow> u32" where
  "swap_flags m = discard_flags m OR prio_flags m"

text \<open>The macro \<open>CHECK_PFX\<close>; \<open>snprintf\<close> cuts the name to the size of the buffer.\<close>

definition check_pfx :: "string \<Rightarrow> string \<Rightarrow> string \<Rightarrow> nat \<Rightarrow> string option" where
  "check_pfx name lname raw bufsz =
     (if strneq raw (name @ ''='') (length name + 1)
      then Some (take (bufsz - 1) (''/dev/disk/by-'' @ lname @ ''/'' @ drop (length name + 1) raw))
      else None)"

fun resolve_list :: "(string \<times> string) list \<Rightarrow> string \<Rightarrow> nat \<Rightarrow> string" where
  "resolve_list [] raw bufsz = raw"
| "resolve_list ((n, l) # ps) raw bufsz =
     (case check_pfx n l raw bufsz of Some d \<Rightarrow> d | None \<Rightarrow> resolve_list ps raw bufsz)"

definition resolve_dev :: "string \<Rightarrow> string" where
  "resolve_dev raw =
     resolve_list [(''LABEL'', ''label''), (''UUID'', ''uuid''), (''PARTLABEL'', ''partlabel''),
       (''PARTUUID'', ''partuuid''), (''ID'', ''id'')] raw 4096"

section \<open>Start\<close>

text \<open>One turn of the loop of \<open>do_start\<close>.\<close>

definition swap_entry :: "sp_env \<Rightarrow> mntent \<Rightarrow> nat \<times> sp_call list \<Rightarrow> nat \<times> sp_call list" where
  "swap_entry e m rl =
     (case rl of (ret, l) \<Rightarrow>
        if mnt_type m \<noteq> ''swap'' then (ret, l)
        else if hasmntopt m ''noauto'' \<noteq> None then (ret, l)
        else
          let flags = swap_flags m; devname = resolve_dev (mnt_fsname m)
          in case sp_stat e devname of
               None \<Rightarrow> (1, l)
             | Some st \<Rightarrow>
                 if st_kind st = S_REG \<and> st_blocks st * 512 < st_size st then (1, l)
                 else if sp_sys e l (SpOn devname flags) \<noteq> 0 then (1, l @ [SpOn devname flags])
                 else (ret, l @ [SpOn devname flags]))"

definition swap_do_start :: "sp_env \<Rightarrow> nat \<times> sp_call list" where
  "swap_do_start e =
     (case sp_fstab e of
        Inl err \<Rightarrow> (if err = ENOENT then 0 else 1, [])
      | Inr ms \<Rightarrow> fold (swap_entry e) ms (0, []))"

section \<open>Stop\<close>

definition do_swapoff :: "sp_env \<Rightarrow> string \<Rightarrow> sp_call list \<Rightarrow> int \<times> sp_call list" where
  "do_swapoff e path l =
     (if strneq path ''/dev/zram'' 9 then (0, l) else (sp_sys e l (SpOff path), l @ [SpOff path]))"

definition swaps_line :: "sp_env \<Rightarrow> string \<Rightarrow> nat \<times> sp_call list \<Rightarrow> nat \<times> sp_call list" where
  "swaps_line e line rl =
     (case rl of (ret, l) \<Rightarrow>
        let line = cstr line
        in if line = [] \<or> hd line \<noteq> CHR ''/'' then (ret, l)
           else case do_swapoff e (takeWhile (\<lambda>c. c \<noteq> CHR '' '') line) l of (err, l) \<Rightarrow>
                  (if err \<noteq> 0 then 1 else ret, l))"

definition fstab_off :: "sp_env \<Rightarrow> mntent \<Rightarrow> nat \<times> sp_call list \<Rightarrow> nat \<times> sp_call list" where
  "fstab_off e m rl =
     (case rl of (ret, l) \<Rightarrow>
        if mnt_type m \<noteq> ''swap'' then (ret, l)
        else case do_swapoff e (resolve_dev (mnt_fsname m)) l of (err, l) \<Rightarrow>
               (if err \<noteq> 0 \<and> err \<noteq> EINVAL then 1 else ret, l))"

definition swap_do_stop :: "sp_env \<Rightarrow> nat \<times> sp_call list" where
  "swap_do_stop e =
     (let rl = (case sp_swaps e of None \<Rightarrow> (0, []) | Some content \<Rightarrow> fold (swaps_line e) (getlines content) (0, []))
      in case sp_fstab e of Inl _ \<Rightarrow> rl | Inr ms \<Rightarrow> fold (fstab_off e) ms rl)"

definition swap_main :: "sp_env \<Rightarrow> string list \<Rightarrow> nat \<times> sp_call list" where
  "swap_main e args =
     (if length args \<noteq> 1 \<or> sp_uid e \<noteq> 0 then (1, [])
      else if hd args = ''start'' then swap_do_start e
      else if hd args = ''stop'' then swap_do_stop e
      else (1, []))"

section \<open>What start does\<close>

definition swap_wanted :: "mntent \<Rightarrow> bool" where
  "swap_wanted m \<longleftrightarrow> mnt_type m = ''swap'' \<and> hasmntopt m ''noauto'' = None"

definition swap_usable :: "sp_env \<Rightarrow> mntent \<Rightarrow> bool" where
  "swap_usable e m \<longleftrightarrow>
     (case sp_stat e (resolve_dev (mnt_fsname m)) of None \<Rightarrow> False
      | Some st \<Rightarrow> \<not> (st_kind st = S_REG \<and> st_blocks st * 512 < st_size st))"

definition swapons :: "sp_env \<Rightarrow> mntent list \<Rightarrow> sp_call list" where
  "swapons e ms =
     map (\<lambda>m. SpOn (resolve_dev (mnt_fsname m)) (swap_flags m)) (filter (\<lambda>m. swap_wanted m \<and> swap_usable e m) ms)"

text \<open>All calls of a list succeed when they are made after the trace \<open>l\<close>.\<close>

fun all_ok :: "sp_env \<Rightarrow> sp_call list \<Rightarrow> sp_call list \<Rightarrow> bool" where
  "all_ok e l [] = True"
| "all_ok e l (c # cs) = (sp_sys e l c = 0 \<and> all_ok e (l @ [c]) cs)"

lemma swap_entry_cases:
  "swap_entry e m (ret, l) =
     (if \<not> swap_wanted m then (ret, l)
      else if \<not> swap_usable e m then (1, l)
      else (if sp_sys e l (SpOn (resolve_dev (mnt_fsname m)) (swap_flags m)) = 0 then ret else 1,
            l @ [SpOn (resolve_dev (mnt_fsname m)) (swap_flags m)]))"
  by (auto simp: swap_entry_def swap_wanted_def swap_usable_def Let_def split: option.splits)

lemma swap_entries:
  "fold (swap_entry e) ms (ret, l) =
     (if list_all (\<lambda>m. \<not> swap_wanted m \<or> swap_usable e m) ms \<and> all_ok e l (swapons e ms) then ret else 1,
      l @ swapons e ms)"
  by (induction ms arbitrary: ret l) (auto simp: swap_entry_cases swapons_def)

text \<open>
  C26: Starting swap calls \<open>swapon\<close> exactly once, in the order of the table, for every
  swap entry without \<open>noauto\<close> whose device exists and has no holes, with its resolved
  name and its flags; a bad entry never keeps a later one from being tried, and the status is 0
  exactly if every wanted entry was usable and every call succeeded.
\<close>

theorem swap_start_entries:
  "swap_do_start e =
     (case sp_fstab e of
        Inl err \<Rightarrow> (if err = ENOENT then 0 else 1, [])
      | Inr ms \<Rightarrow>
          (if list_all (\<lambda>m. swap_wanted m = (swap_wanted m \<and> swap_usable e m)) ms \<and> all_ok e [] (swapons e ms)
           then 0 else 1, swapons e ms))"
proof -
  have "(\<lambda>m. swap_wanted m = (swap_wanted m \<and> swap_usable e m)) = (\<lambda>m. \<not> swap_wanted m \<or> swap_usable e m)"
    by (auto simp: fun_eq_iff)
  then show ?thesis by (simp add: swap_do_start_def swap_entries split: sum.splits)
qed

section \<open>The priority\<close>

lemma prio_fits:
  assumes "n \<le> 0x7FFF"
  shows "(0x8000 OR (of_nat n :: u32)) AND 0x7FFF = of_nat n" and "(0x8000 OR (of_nat n :: u32)) AND 0xFFFF8000 = 0x8000"
proof -
  have "take_bit 15 (of_nat n :: u32) = of_nat n"
    using assms by (simp add: take_bit_of_nat take_bit_nat_eq_self)
  then have m: "(of_nat n :: u32) AND 0x7FFF = of_nat n" by (simp add: take_bit_eq_mask mask_eq_exp_minus_1)
  have "(0x8000 :: u32) AND 0x7FFF = 0" by simp
  then show "(0x8000 OR (of_nat n :: u32)) AND 0x7FFF = of_nat n" by (simp add: bit.conj_disj_distrib2 m)
  have "(of_nat n :: u32) AND 0xFFFF8000 = (of_nat n AND 0x7FFF) AND 0xFFFF8000" by (simp add: m)
  also have "\<dots> = 0" by (simp add: and.assoc)
  finally show "(0x8000 OR (of_nat n :: u32)) AND 0xFFFF8000 = 0x8000" by (simp add: bit.conj_disj_distrib2)
qed


section \<open>What stop does\<close>

definition off_not_zram :: "sp_call \<Rightarrow> bool" where
  "off_not_zram c = (case c of SpOff p \<Rightarrow> \<not> prefix ''/dev/zram'' p | SpOn _ _ \<Rightarrow> False)"

lemma do_swapoff_calls: "do_swapoff e p l = (err, l') \<Longrightarrow> adds off_not_zram l l'"
  by (auto simp: do_swapoff_def off_not_zram_def strneq_def prefix_def split: if_splits)

lemma fold_calls:
  assumes step: "\<And>x r l r' l'. f x (r, l) = (r', l') \<Longrightarrow> adds P l l'"
  shows "fold f xs (r, l) = (r', l') \<Longrightarrow> adds P l l'"
proof (induction xs arbitrary: r l)
  case (Cons x xs)
  obtain r1 l1 where "f x (r, l) = (r1, l1)" by (cases "f x (r, l)")
  with Cons.prems have "adds P l1 l'" by (intro Cons.IH) simp
  with step [OF \<open>f x (r, l) = (r1, l1)\<close>] show ?case by (rule adds_trans)
qed simp

text \<open>
  C32: Stopping swap makes no other calls than \<open>swapoff\<close>, and none for a zram device,
  whether it is listed in \<open>/proc/swaps\<close> or named in the table.
\<close>

theorem swap_stop_zram:
  assumes "swap_do_stop e = (status, l)" and "c \<in> set l"
  shows "\<exists>p. c = SpOff p \<and> \<not> prefix ''/dev/zram'' p"
proof -
  have 1: "swaps_line e x (r, l) = (r', l') \<Longrightarrow> adds off_not_zram l l'" for x r l r' l'
    by (auto simp: swaps_line_def Let_def split: if_splits prod.splits dest: do_swapoff_calls)
  have 2: "fstab_off e x (r, l) = (r', l') \<Longrightarrow> adds off_not_zram l l'" for x r l r' l'
    by (auto simp: fstab_off_def split: if_splits prod.splits dest: do_swapoff_calls)
  note f1 = fold_calls [where f = "swaps_line e" and P = off_not_zram, OF 1]
    and f2 = fold_calls [where f = "fstab_off e" and P = off_not_zram, OF 2]
  obtain r1 l1 where rl: "(case sp_swaps e of None \<Rightarrow> (0, []) | Some content \<Rightarrow> fold (swaps_line e) (getlines content) (0, []))
      = (r1, l1)" by fastforce
  then have "adds off_not_zram [] l1" by (cases "sp_swaps e") (auto intro: f1)
  moreover have "adds off_not_zram l1 l"
    using assms(1) rl by (auto simp: swap_do_stop_def Let_def split: sum.splits intro: f2)
  ultimately have "adds off_not_zram [] l" by (rule adds_trans)
  with assms(2) show ?thesis by (auto dest!: adds_mem simp: off_not_zram_def split: sp_call.splits)
qed

definition sp_demo :: sp_env where
  "sp_demo =
     \<lparr>sp_uid = 0, sp_fstab = Inr [\<lparr>mnt_fsname = ''/dev/sda2'', mnt_dir = ''none'', mnt_type = ''swap'', mnt_opts = ''defaults'',
        mnt_freq = 0, mnt_passno = 0\<rparr>],
      sp_swaps = Some ''Filename Type\<newline>/dev/zram0 partition\<newline>/dev/sda2 partition\<newline>'',
      sp_stat = (\<lambda>p. None), sp_sys = (\<lambda>l c. 0)\<rparr>"

theorem swap_stop_zram_witness: "\<exists>p. SpOff ''/dev/sda2'' = SpOff p \<and> \<not> prefix ''/dev/zram'' p"
proof -
  have run: "swap_do_stop sp_demo = (0, [SpOff ''/dev/sda2'', SpOff ''/dev/sda2''])" by code_simp
  show ?thesis by (rule swap_stop_zram [OF run]) simp
qed


end
