(* ===== verification/ConfDir.thy ===== *)
theory ConfDir
  imports Prelude "HOL-Library.Multiset"
begin

text \<open>
  The part the three configuration loaders share, repeated in each of
  \<^verbatim>\<open>src/early/helpers/sysctl.cc\<close>, \<^verbatim>\<open>kmod.cc\<close> and \<^verbatim>\<open>binfmt.cc\<close>: scanning a list of
  directories for \<open>*.conf\<close> files into \<open>got_map\<close>, sorting the names into \<open>ord_list\<close>, and
  processing the files in that order. The programs differ in which directory entries they
  accept and in what they do with a file.

  \<open>got_map\<close> is an association list in the order of insertion. The order in which the real
  unordered map is traversed is some permutation of it; \<open>ord_list_perm\<close> shows that the
  result does not depend on it.
\<close>

section \<open>The scan\<close>

text \<open>
  A directory entry: its name, the type \<open>readdir\<close> reports, and what \<open>fstatat\<close> says after
  following symbolic links (\<open>None\<close> when it fails).
\<close>

record dirent =
  d_name :: string
  d_type :: ftype
  d_target :: "ftype option"

definition conf_name :: "string \<Rightarrow> bool" where
  "conf_name dn \<longleftrightarrow> \<not> (length dn \<le> 5 \<or> drop (length dn - 5) dn \<noteq> ''.conf'')"

type_synonym got_map = "(string \<times> string) list"

definition scan_entry :: "(dirent \<Rightarrow> bool) \<Rightarrow> string \<Rightarrow> dirent \<Rightarrow> got_map \<Rightarrow> got_map" where
  "scan_entry accept p dp got =
     (if \<not> accept dp then got
      else if \<not> conf_name (d_name dp) then got
      else if map_of got (d_name dp) \<noteq> None then got
      else got @ [(d_name dp, p @ ''/'' @ d_name dp)])"

text \<open>The loop over the search paths; a directory that cannot be opened is skipped.\<close>

fun scan_paths :: "(dirent \<Rightarrow> bool) \<Rightarrow> (string \<Rightarrow> dirent list option) \<Rightarrow> string list \<Rightarrow> got_map \<Rightarrow> got_map" where
  "scan_paths accept dirs [] got = got"
| "scan_paths accept dirs (p # ps) got =
     scan_paths accept dirs ps
       (case dirs p of None \<Rightarrow> got | Some entries \<Rightarrow> fold (scan_entry accept p) entries got)"

definition ord_list :: "got_map \<Rightarrow> string list" where
  "ord_list got = sort (map fst got)"

text \<open>
  Processing: \<open>load\<close> gets the full path and the state of the program and says whether it
  succeeded; a failure is remembered and the next file is processed all the same.
\<close>

definition process_all :: "(string \<Rightarrow> 's \<Rightarrow> bool \<times> 's) \<Rightarrow> got_map \<Rightarrow> 's \<Rightarrow> bool \<times> 's" where
  "process_all load got s =
     fold (\<lambda>c (ok, s). case load (the (map_of got c)) s of (ok', s) \<Rightarrow> (ok \<and> ok', s)) (ord_list got) (True, s)"

section \<open>The file that is chosen for a name\<close>

definition has_conf :: "(dirent \<Rightarrow> bool) \<Rightarrow> (string \<Rightarrow> dirent list option) \<Rightarrow> string \<Rightarrow> string \<Rightarrow> bool" where
  "has_conf accept dirs n p \<longleftrightarrow>
     (case dirs p of None \<Rightarrow> False | Some es \<Rightarrow> \<exists>e \<in> set es. accept e \<and> d_name e = n)"

definition first_conf :: "(dirent \<Rightarrow> bool) \<Rightarrow> (string \<Rightarrow> dirent list option) \<Rightarrow> string list \<Rightarrow> string \<Rightarrow> string option" where
  "first_conf accept dirs ps n =
     (if conf_name n then map_option (\<lambda>p. p @ ''/'' @ n) (find (has_conf accept dirs n) ps) else None)"

lemma map_of_scan_entries:
  "map_of (fold (scan_entry accept p) es got) n =
     (case map_of got n of Some v \<Rightarrow> Some v
      | None \<Rightarrow> if conf_name n \<and> (\<exists>e \<in> set es. accept e \<and> d_name e = n) then Some (p @ ''/'' @ n) else None)"
  by (induction es arbitrary: got) (auto simp: scan_entry_def map_add_def split: option.splits)

lemma map_of_scan_paths:
  "map_of (scan_paths accept dirs ps got) n =
     (case map_of got n of Some v \<Rightarrow> Some v | None \<Rightarrow> first_conf accept dirs ps n)"
  by (induction ps arbitrary: got)
    (auto simp: first_conf_def has_conf_def map_of_scan_entries split: option.splits)

lemma distinct_scan_entries: "distinct (map fst got) \<Longrightarrow> distinct (map fst (fold (scan_entry accept p) es got))"
  by (induction es arbitrary: got) (auto simp: scan_entry_def map_of_eq_None_iff)

lemma distinct_scan_paths: "distinct (map fst got) \<Longrightarrow> distinct (map fst (scan_paths accept dirs ps got))"
  by (induction ps arbitrary: got) (auto simp: distinct_scan_entries split: option.splits)

text \<open>The names are processed in strictly increasing order, each once.\<close>

lemma ord_list_scan:
  "sorted_wrt (<) (ord_list (scan_paths accept dirs ps []))"
  "set (ord_list (scan_paths accept dirs ps [])) = {n. first_conf accept dirs ps n \<noteq> None}"
proof -
  have "distinct (ord_list (scan_paths accept dirs ps []))"
    by (simp add: ord_list_def distinct_scan_paths)
  then show "sorted_wrt (<) (ord_list (scan_paths accept dirs ps []))"
    by (simp add: ord_list_def strict_sorted_iff)
  have "set (ord_list (scan_paths accept dirs ps [])) = {n. map_of (scan_paths accept dirs ps []) n \<noteq> None}"
    by (auto simp: ord_list_def map_of_eq_None_iff)
  then show "set (ord_list (scan_paths accept dirs ps [])) = {n. first_conf accept dirs ps n \<noteq> None}"
    by (simp add: map_of_scan_paths)
qed

lemma ord_list_perm: "mset got = mset got' \<Longrightarrow> ord_list got = ord_list got'"
  unfolding ord_list_def by (metis mset_map properties_for_sort sorted_sort mset_sort)

text \<open>The files a run processes, in order.\<close>

definition conf_files :: "(dirent \<Rightarrow> bool) \<Rightarrow> (string \<Rightarrow> dirent list option) \<Rightarrow> string list \<Rightarrow> string list" where
  "conf_files accept dirs ps =
     map (\<lambda>n. the (first_conf accept dirs ps n)) (ord_list (scan_paths accept dirs ps []))"

section \<open>Processing the files\<close>

definition loads :: "(string \<Rightarrow> 's \<Rightarrow> bool \<times> 's) \<Rightarrow> string list \<Rightarrow> bool \<times> 's \<Rightarrow> bool \<times> 's" where
  "loads load fs = fold (\<lambda>f (ok, s). case load f s of (ok', s) \<Rightarrow> (ok \<and> ok', s)) fs"

lemma loads_simps [simp]:
  "loads load [] x = x"
  "loads load (f # fs) (ok, s) = loads load fs (case load f s of (ok', s) \<Rightarrow> (ok \<and> ok', s))"
  by (simp_all add: loads_def)

lemma process_all_loads:
  "process_all load (scan_paths accept dirs ps []) s = loads load (conf_files accept dirs ps) (True, s)"
  by (simp add: process_all_def loads_def conf_files_def fold_map comp_def map_of_scan_paths)

text \<open>
  The interface between the scan and the loaders: a loader moves its state along a
  preorder, such as extending a trace by calls of a certain kind.
\<close>

locale conf_loader =
  fixes load :: "string \<Rightarrow> 's \<Rightarrow> bool \<times> 's" and step :: "'s \<Rightarrow> 's \<Rightarrow> bool"
  assumes step_refl: "step s s"
    and step_trans: "step s t \<Longrightarrow> step t u \<Longrightarrow> step s u"
    and load_step: "load f s = (ok, t) \<Longrightarrow> step s t"
begin

lemma loads_step: "loads load fs (ok, s) = (ok', t) \<Longrightarrow> step s t"
proof (induction fs arbitrary: ok s)
  case Nil
  then show ?case by (simp add: step_refl)
next
  case (Cons f fs)
  obtain b u where l: "load f s = (b, u)" by (cases "load f s")
  with Cons have "step u t" by simp
  with load_step [OF l] show ?case by (rule step_trans)
qed

lemma process_all_step: "process_all load (scan_paths accept dirs ps []) s = (ok, t) \<Longrightarrow> step s t"
  by (simp add: process_all_loads loads_step)

text \<open>A failure is never forgotten.\<close>

lemma loads_failed: "fst (loads load fs (ok, s)) \<Longrightarrow> ok"
proof (induction fs arbitrary: ok s)
  case (Cons f fs)
  obtain b u where "load f s = (b, u)" by (cases "load f s")
  with Cons.prems Cons.IH [of "ok \<and> b" u] show ?case by simp
qed simp

end

end
