(* ===== verification/Sysctl.thy ===== *)
theory Sysctl
  imports ConfDir
begin

text \<open>
  The sysctl loader, \<^verbatim>\<open>src/early/helpers/sysctl.cc\<close>: names with dots and slashes, globs,
  entries that exclude later globs, optional entries, the configuration files and \<open>main\<close>.

  The state holds the set \<open>entries\<close>, the trace of opens and writes below \<open>/proc/sys\<close>, and the
  warnings. The line buffer of \<open>getline\<close> is modelled with its NUL bytes, because
  \<open>load_sysctl\<close> overwrites the NUL at the end of the value. \<open>None\<close> stands for undefined
  behaviour: reading past the bytes of the line, or an uninitialised \<open>struct stat\<close>.
\<close>

section \<open>State and environment\<close>

datatype sc_call = ScOpen string | ScWrite string string

datatype glob_result = GlobOk "string list" | GlobNomatch | GlobError

record sc_state =
  sc_entries :: "string set"
  sc_log :: "sc_call list"
  sc_warn :: "string list"

text \<open>
  \<open>sc_openat\<close> is 0 or an error number, \<open>sc_written\<close> the result of \<open>write\<close>; \<open>sc_file\<close> is the content
  of a file or \<open>None\<close> when it cannot be opened; \<open>sc_access\<close> tells whether \<open>/etc/sysctl.conf\<close> is
  readable; \<open>sc_dry_run\<close> whether \<open>DINIT_CHIMERA_SYSCTL_DRY_RUN\<close> is set; \<open>sc_proc\<close> whether
  \<open>/proc/sys\<close> can be opened.
\<close>

record sc_env =
  sc_proc :: bool
  sc_dry_run :: bool
  sc_openat :: "sc_call list \<Rightarrow> string \<Rightarrow> int"
  sc_written :: "sc_call list \<Rightarrow> string \<Rightarrow> string \<Rightarrow> int"
  sc_glob :: "string \<Rightarrow> glob_result"
  sc_stat :: "string \<Rightarrow> ftype option"
  sc_file :: "string \<Rightarrow> string option"
  sc_dirs :: "string \<Rightarrow> dirent list option"
  sc_access :: bool

abbreviation (input) sys_path :: string where "sys_path \<equiv> ''/etc/sysctl.conf''"

definition sysctl_paths :: "string list" where
  "sysctl_paths = [''/etc/sysctl.d'', ''/run/sysctl.d'', ''/usr/local/lib/sysctl.d'', ''/usr/lib/sysctl.d'']"

section \<open>Names\<close>

definition swap_sep :: "char \<Rightarrow> char" where
  "swap_sep c = (if c = CHR ''.'' then CHR ''/'' else if c = CHR ''/'' then CHR ''.'' else c)"

text \<open>The loop over the separators: \<open>curp\<close> is the rest of the name, \<open>fsep\<close> the next separator in it.\<close>

function swap_loop :: "string \<Rightarrow> nat \<Rightarrow> string" where
  "swap_loop curp fsep =
     (if length curp \<le> fsep then curp
      else
        let pre = take fsep curp @ [swap_sep (curp ! fsep)];
            curp = drop (fsep + 1) curp
        in if curp = [] then pre
           else let fsep = strcspn curp ''./''
                in if fsep = length curp then pre @ curp else pre @ swap_loop curp fsep)"
  by pat_completeness auto
termination
  by (relation "measure (\<lambda>(curp, fsep). length curp)") auto

declare swap_loop.simps [simp del]

definition sysctl_name :: "string \<Rightarrow> string" where
  "sysctl_name name =
     (let fsep = strcspn name ''./''
      in if fsep = length name \<or> name ! fsep = CHR ''/'' then name else swap_loop name fsep)"

text \<open>The loop that turns every slash back into a dot, for the warning about an unknown name.\<close>

function unslash :: "string \<Rightarrow> string" where
  "unslash name =
     (let i = strcspn name ''/'' in if i = length name then name else unslash (name[i := CHR ''.'']))"
  by pat_completeness auto
termination
proof (relation "measure (\<lambda>name. length (filter (\<lambda>c. c = CHR ''/'') name))", goal_cases)
  case (2 name i)
  then show ?case using strcspn_less [of name "''/''"] by (auto intro!: filter_update_less)
qed simp

declare unslash.simps [simp del]

section \<open>Setting one entry\<close>

text \<open>
  \<open>load_sysctl\<close> from the label \<open>doneg\<close> on. \<open>value\<close> is the rest of the line buffer that starts with
  the value; the result has it with the newline written over its first NUL.
\<close>

definition sysctl_set :: "sc_env \<Rightarrow> string \<Rightarrow> string option \<Rightarrow> bool \<Rightarrow> bool \<Rightarrow> sc_state
    \<Rightarrow> (bool \<times> string option \<times> sc_state) option" where
  "sysctl_set e name value opt globbed st =
     (let st = (if \<not> globbed then st\<lparr>sc_entries := insert name (sc_entries st)\<rparr> else st)
      in case value of
           None \<Rightarrow> Some (True, None, st)
         | Some buf \<Rightarrow>
             let err = sc_openat e (sc_log st) name;
                 st = st\<lparr>sc_log := sc_log st @ [ScOpen name]\<rparr>
             in if err \<noteq> 0 then
                  (if err = EACCES then Some (True, value, st)
                   else if opt then Some (True, value, st)
                   else if err = ENOENT then
                     Some (False, value, st\<lparr>sc_warn := sc_warn st @ [''unknown sysctl '' @ unslash name]\<rparr>)
                   else Some (False, value, st\<lparr>sc_warn := sc_warn st @ [''failed to set sysctl '' @ name]\<rparr>))
                else if NUL \<notin> set buf then None
                else if sc_dry_run e then Some (True, value, st)
                else
                  let v = cstr buf; out = v @ [NL];
                      ret = sc_written e (sc_log st) name out;
                      st = st\<lparr>sc_log := sc_log st @ [ScWrite name out]\<rparr>;
                      buf = out @ drop (length out) buf
                  in if ret \<le> 0 \<and> \<not> opt
                     then Some (False, Some buf, st\<lparr>sc_warn := sc_warn st @ [''failed to set sysctl '' @ name]\<rparr>)
                     else Some (True, Some buf, st))"

text \<open>
  The loop over the matches of a glob. \<open>stb\<close> is the type in \<open>st.st_mode\<close>: a failing \<open>stat\<close> leaves
  what the last one stored, and at first there is nothing. The value buffer is shared by all
  the matches.
\<close>

fun glob_loop :: "sc_env \<Rightarrow> string list \<Rightarrow> string option \<Rightarrow> bool \<Rightarrow> ftype option \<Rightarrow> bool \<Rightarrow> sc_state
    \<Rightarrow> (bool \<times> string option \<times> sc_state) option" where
  "glob_loop e [] value opt stb ret st = Some (ret, value, st)"
| "glob_loop e (p # ps) value opt stb ret st =
     (let subp = drop 10 p
      in if subp \<in> sc_entries st then glob_loop e ps value opt stb ret st
         else
           let (ret, st, stb) =
                 (case sc_stat e p of
                    None \<Rightarrow> (False, st\<lparr>sc_warn := sc_warn st @ [''failed to stat '' @ p]\<rparr>, stb)
                  | Some k \<Rightarrow> (ret, st, Some k))
           in case stb of
                None \<Rightarrow> None
              | Some k \<Rightarrow>
                  if k \<noteq> S_REG then glob_loop e ps value opt stb ret st
                  else do {
                    (ok, value, st) \<leftarrow> sysctl_set e subp value opt True st;
                    glob_loop e ps value opt stb (ret \<and> ok) st
                  })"

definition load_sysctl :: "sc_env \<Rightarrow> string \<Rightarrow> string option \<Rightarrow> bool \<Rightarrow> sc_state
    \<Rightarrow> (bool \<times> string option \<times> sc_state) option" where
  "load_sysctl e name value opt st =
     (let name = sysctl_name name
      in if strcspn name ''*?['' < length name then
           (case sc_glob e (''/proc/sys/'' @ name) of
              GlobNomatch \<Rightarrow> Some (True, value, st)
            | GlobError \<Rightarrow> Some (False, value, st\<lparr>sc_warn := sc_warn st @ [''failed to glob '' @ name]\<rparr>)
            | GlobOk ps \<Rightarrow> glob_loop e ps value opt None True st)
         else sysctl_set e name value opt False st)"

section \<open>Configuration files\<close>

text \<open>What a line asks for: nothing, a complaint, or an entry with its name, value and \<open>opt\<close>.\<close>

datatype sc_line = ScIgnore | ScInvalid string | ScEntry string "string option" bool

text \<open>
  The parser of \<open>load_conf\<close> on one line as \<open>getline\<close> leaves it in the buffer, \<open>l\<close> and a NUL. \<open>cl\<close>
  is \<open>cline\<close> after both loops over leading space, \<open>tail\<close> what follows the stripped text in the
  buffer; it starts with a NUL. A value runs into \<open>tail\<close>.
\<close>

definition parse_line :: "string \<Rightarrow> sc_line" where
  "parse_line l =
     (let line = cstr l;
          cline = lstrip line
      in if cline = [] \<or> hd cline = CHR ''#'' \<or> hd cline = CHR '';'' then ScIgnore
         else
           let opt = (hd cline = CHR ''-'');
               cline = lstrip (if opt then tl cline else cline);
               stripped = rstrip line;
               tail = replicate (length line - length stripped) NUL @ drop (length line) l @ [NUL];
               cl = drop (length line - length cline) stripped;
               delim = strchr cl (CHR ''='')
           in if (delim = None \<and> \<not> opt) \<or> (cl \<noteq> [] \<and> (hd cl = CHR ''/'' \<or> hd cl = CHR ''.''))
              then ScInvalid (''invalid sysctl: '' @ cl)
              else
                let sname = rstrip (takeWhile (\<lambda>c. c \<noteq> CHR ''='') cl);
                    svalue = map_option (\<lambda>d. lstrip (tl d) @ tail) delim
                in if sname = [] then ScInvalid ''unnamed sysctl found''
                   else ScEntry sname svalue opt)"

fun load_lines :: "sc_env \<Rightarrow> string list \<Rightarrow> bool \<Rightarrow> sc_state \<Rightarrow> (bool \<times> sc_state) option" where
  "load_lines e [] fret st = Some (fret, st)"
| "load_lines e (l # ls) fret st =
     (case parse_line l of
        ScIgnore \<Rightarrow> load_lines e ls fret st
      | ScInvalid w \<Rightarrow> load_lines e ls False (st\<lparr>sc_warn := sc_warn st @ [w]\<rparr>)
      | ScEntry name value opt \<Rightarrow> do {
          (ok, _, st) \<leftarrow> load_sysctl e name value opt st;
          load_lines e ls (fret \<and> ok) st
        })"

text \<open>Once the behaviour is undefined it stays so.\<close>

definition sysctl_load_conf :: "sc_env \<Rightarrow> string \<Rightarrow> sc_state option \<Rightarrow> bool \<times> sc_state option" where
  "sysctl_load_conf e s sto =
     (case sto of
        None \<Rightarrow> (False, None)
      | Some st \<Rightarrow>
          case sc_file e s of
            None \<Rightarrow> (False, Some (st\<lparr>sc_warn := sc_warn st @ [''could not load '' @ s]\<rparr>))
          | Some content \<Rightarrow>
              case load_lines e (getlines content) True st of
                None \<Rightarrow> (False, None)
              | Some (fret, st) \<Rightarrow> (fret, Some st))"

definition sysctl_accept :: "dirent \<Rightarrow> bool" where
  "sysctl_accept dp \<longleftrightarrow> d_target dp = Some S_REG"

definition sysctl_scan :: "sc_env \<Rightarrow> got_map" where
  "sysctl_scan e = scan_paths sysctl_accept (sc_dirs e) sysctl_paths []"

text \<open>The exit status and the final state; \<open>strchr\<close> finds the first slash of the path.\<close>

definition sysctl_main :: "sc_env \<Rightarrow> nat \<Rightarrow> nat \<times> sc_state option" where
  "sysctl_main e argc =
     (let st = \<lparr>sc_entries = {}, sc_log = [], sc_warn = []\<rparr>
      in if argc \<noteq> 1 \<or> \<not> sc_proc e then (1, Some st)
         else
           let got = sysctl_scan e;
               (ok, st) = process_all (sysctl_load_conf e) got (Some st);
               asysp = tl (the (strchr sys_path (CHR ''/'')));
               (ok', st) =
                 (if sc_access e \<and> map_of got asysp = None then sysctl_load_conf e sys_path st else (True, st))
           in (if ok \<and> ok' then 0 else 1, st))"

section \<open>The separator rule\<close>

lemma swap_sep_id: "c \<notin> set ''./'' \<Longrightarrow> swap_sep c = c"
  by (simp add: swap_sep_def)

lemma map_swap_sep_id: "strcspn s ''./'' = length s \<Longrightarrow> map swap_sep s = s"
  by (induction s) (auto simp: strcspn_Cons swap_sep_id split: if_splits)

lemma map_swap_sep_take: "map swap_sep (take (strcspn s ''./'') s) = take (strcspn s ''./'') s"
  by (induction s) (auto simp: strcspn_Cons swap_sep_id)

lemma swap_loop_map: "fsep = strcspn curp ''./'' \<Longrightarrow> swap_loop curp fsep = map swap_sep curp"
proof (induction curp fsep rule: swap_loop.induct)
  case (1 curp fsep)
  show ?case
  proof (cases "length curp \<le> fsep")
    case True
    then have "strcspn curp ''./'' = length curp" using 1(2) strcspn_le [of curp "''./''"] by simp
    with True show ?thesis by (simp add: swap_loop.simps map_swap_sep_id)
  next
    case False
    let ?rest = "drop (fsep + 1) curp"
    have "curp = take fsep curp @ curp ! fsep # ?rest" using False by (simp add: id_take_nth_drop)
    then have m: "map swap_sep curp = take fsep curp @ swap_sep (curp ! fsep) # map swap_sep ?rest"
      using map_swap_sep_take [of curp] 1(2) by (metis list.simps(9) map_append)
    show ?thesis
    proof (cases "?rest \<noteq> [] \<and> strcspn ?rest ''./'' \<noteq> length ?rest")
      case True
      with 1(1) [OF False refl refl _ refl] have "swap_loop ?rest (strcspn ?rest ''./'') = map swap_sep ?rest"
        by simp
      with True False m show ?thesis by (simp add: swap_loop.simps [of curp] Let_def)
    next
      case none: False
      then have "map swap_sep ?rest = ?rest" by (auto intro: map_swap_sep_id)
      with none False m show ?thesis by (auto simp: swap_loop.simps [of curp] Let_def)
    qed
  qed
qed

definition first_sep :: "string \<Rightarrow> char option" where
  "first_sep name = find (\<lambda>c. c \<in> set ''./'') name"

lemma first_sep_strcspn:
  "first_sep name = (if strcspn name ''./'' = length name then None else Some (name ! strcspn name ''./''))"
  by (induction name) (auto simp: first_sep_def strcspn_Cons)

lemma first_sep_swap: "first_sep (map swap_sep name) = map_option swap_sep (first_sep name)"
  by (induction name) (auto simp: first_sep_def swap_sep_def)

lemma first_sep_cases: "first_sep name \<in> {None, Some (CHR ''.''), Some (CHR ''/'')}"
  by (induction name) (auto simp: first_sep_def)

lemma sysctl_name_first_sep:
  "sysctl_name name = (if first_sep name = Some (CHR ''.'') then map swap_sep name else name)"
  using first_sep_cases [of name]
  by (auto simp: sysctl_name_def Let_def swap_loop_map first_sep_strcspn split: if_splits)

text \<open>
  C21: The pointer loop over a name's separators swaps every dot and slash if the first separator
  is a dot, and leaves the name alone otherwise (no separator, or a slash first), so
  \<open>net.ipv4.conf.eth0/1.x\<close> is the path \<open>net/ipv4/conf/eth0.1/x\<close>;
  applying the rule to its own result changes nothing.
\<close>

theorem sysctl_name_rule:
  "sysctl_name name = (if first_sep name = Some (CHR ''.'') then map swap_sep name else name) \<and>
   sysctl_name (sysctl_name name) = sysctl_name name"
  using first_sep_swap [of name] by (simp add: sysctl_name_first_sep swap_sep_def)

lemma unslash_map: "unslash name = map (\<lambda>c. if c = CHR ''/'' then CHR ''.'' else c) name"
proof (induction name rule: unslash.induct)
  case (1 name)
  let ?i = "strcspn name ''/''" and ?f = "\<lambda>c. if c = CHR ''/'' then CHR ''.'' else c"
  show ?case
  proof (cases "?i = length name")
    case True
    then have "\<forall>c \<in> set name. c \<noteq> CHR ''/''"
      by (induction name) (auto simp: strcspn_Cons split: if_splits)
    with True show ?thesis by (simp add: unslash.simps map_idI)
  next
    case False
    then have "map ?f (name[?i := CHR ''.'']) = map ?f name"
      using strcspn_less [of name "''/''"] by (auto simp: map_update intro!: list_update_same_conv [THEN iffD2])
    with False 1 show ?thesis by (simp add: unslash.simps [of name] Let_def)
  qed
qed

section \<open>Reading a line\<close>

lemma rstrip_entry:
  assumes "blank c" "blank d" "trimmed val"
  shows "rstrip (p @ ''='' @ c @ val @ d) = p @ CHR ''='' # (if val = [] then [] else c @ val)"
proof (cases "val = []")
  case True
  then have "rstrip (p @ ''='' @ c @ val @ d) = rstrip ((p @ ''='') @ c @ d)" by simp
  also have "\<dots> = p @ ''=''"
    using assms by (subst rstrip_blank) (auto simp: blank_def rstrip_def isspace_def)
  finally show ?thesis using True by simp
next
  case False
  have "rstrip (p @ ''='' @ c @ val @ d) = rstrip ((p @ ''='' @ c) @ val)"
    using rstrip_blank [OF assms(2), of "p @ ''='' @ c @ val"] by simp
  also have "\<dots> = (p @ ''='' @ c) @ val" using rstrip_trimmed [OF assms(3) False] .
  finally show ?thesis using False by simp
qed

lemma strchr_skip: "x \<notin> set p \<Longrightarrow> strchr (p @ x # r) x = Some (x # r)"
  by (induction p) (auto simp: strchr_def)

lemma takeWhile_skip: "x \<notin> set p \<Longrightarrow> takeWhile (\<lambda>c. c \<noteq> x) (p @ x # r) = p"
  by (induction p) auto

text \<open>
  C28: A line with a name, an equals sign and a value, with any white space around each of them and
  an optional leading dash, is parsed to exactly that name and value, whatever equals signs the
  value has; the dash makes the entry optional.
\<close>

theorem sysctl_line_parsed:
  assumes bl: "blank a" "blank b" "blank c" "blank d" "blank o'"
    and nm: "name \<noteq> []" "trimmed name" and val: "trimmed val"
    and eq: "CHR ''='' \<notin> set name" and nul: "NUL \<notin> set (name @ val)"
    and hd: "hd name \<notin> {CHR ''#'', CHR '';'', CHR ''-'', CHR ''/'', CHR ''.''}"
  shows "\<exists>t. parse_line (a @ (if opt then ''-'' @ o' else []) @ name @ b @ ''='' @ c @ val @ d) =
    ScEntry name (Some (val @ NUL # t)) opt"
proof -
  define x where "x = (if opt then ''-'' @ o' else [])"
  define core where "core = name @ b @ ''='' @ c @ val @ d"
  let ?l = "a @ x @ core"
  have cs: "cstr ?l = ?l" using bl [THEN blank_nul] nul by (intro cstr_id) (auto simp: x_def core_def)
  have core: "lstrip core = core" using nm by (simp add: core_def lstrip_trimmed)
  have l1: "lstrip ?l = x @ core"
    using core by (cases opt) (simp_all add: lstrip_blank [OF bl(1)] x_def, simp add: lstrip_def isspace_def)
  have hd1: "x @ core \<noteq> []" "hd (x @ core) \<notin> {CHR ''#'', CHR '';''}" "hd (x @ core) = CHR ''-'' \<longleftrightarrow> opt"
    using nm hd by (auto simp: x_def core_def)
  have l2: "lstrip (if opt then tl (x @ core) else x @ core) = core"
    using core lstrip_blank [OF bl(5), of core] by (simp add: x_def)
  define r where "r = (if val = [] then [] else c @ val)"
  have st: "rstrip ?l = (a @ x) @ name @ b @ CHR ''='' # r"
    using rstrip_entry [OF bl(3,4) val, of "a @ x @ name @ b"] by (simp add: core_def r_def)
  have cl: "drop (length ?l - length core) (rstrip ?l) = (name @ b) @ CHR ''='' # r"
    by (simp add: st)
  have nb: "CHR ''='' \<notin> set (name @ b)" using eq blank_notin [OF bl(2), of "CHR ''=''"] by (simp add: isspace_def)
  have rs: "rstrip (name @ b) = name" "lstrip r = val"
    using rstrip_blank [OF bl(2), of name] rstrip_trimmed [OF nm(2,1), of "[]"]
      lstrip_blank [OF bl(3), of val] lstrip_trimmed [OF val, of "[]"] by (auto simp: r_def lstrip_def)
  have tail: "replicate k NUL @ [NUL] = NUL # replicate k NUL" for k by (simp add: replicate_append_same)
  have hd2: "hd ((name @ b) @ CHR ''='' # r) \<notin> {CHR ''/'', CHR ''.''}" using nm hd by simp
  have "parse_line ?l = ScEntry name (Some (val @ NUL # replicate (length ?l - length (rstrip ?l)) NUL)) opt"
    using hd1 hd2 nm(1) unfolding parse_line_def cs l1 Let_def
    by (simp only: l2 cl strchr_skip [OF nb] takeWhile_skip [OF nb] rs tail option.map list.sel
      drop_all [OF order.refl] append_Nil) simp
  then show ?thesis unfolding x_def core_def by blast
qed

theorem sysctl_line_parsed_witness:
  "\<exists>t. parse_line ''  - kernel.panic =  10 30  '' = ScEntry ''kernel.panic'' (Some (''10 30'' @ NUL # t)) True"
  using sysctl_line_parsed [of "''  ''" "'' ''" "''  ''" "''  ''" "'' ''" "''kernel.panic''" "''10 30''" True]
  by (simp add: blank_def trimmed_def isspace_def)

section \<open>What a loader run does to the system\<close>

text \<open>A write is one line that ends in a newline, and there is none in a dry run.\<close>

definition sc_allowed :: "sc_env \<Rightarrow> sc_call \<Rightarrow> bool" where
  "sc_allowed e c =
     (case c of ScOpen _ \<Rightarrow> True | ScWrite _ out \<Rightarrow> \<not> sc_dry_run e \<and> out \<noteq> [] \<and> last out = NL \<and> NUL \<notin> set out)"

definition sc_step :: "sc_env \<Rightarrow> sc_state option \<Rightarrow> sc_state option \<Rightarrow> bool" where
  "sc_step e s t =
     (case t of None \<Rightarrow> True
      | Some t \<Rightarrow> (case s of None \<Rightarrow> False
                   | Some s \<Rightarrow> adds (sc_allowed e) (sc_log s) (sc_log t) \<and> sc_entries s \<subseteq> sc_entries t))"

lemma sc_step_refl [simp]: "sc_step e s s"
  by (cases s) (auto simp: sc_step_def)

lemma sc_step_trans: "sc_step e s t \<Longrightarrow> sc_step e t u \<Longrightarrow> sc_step e s u"
  by (auto simp: sc_step_def split: option.splits intro: adds_trans)

lemma sc_step_None [simp]: "sc_step e s None"
  by (simp add: sc_step_def)

lemma sc_step_warn [simp]: "sc_step e (Some s) (Some (t\<lparr>sc_warn := w\<rparr>)) \<longleftrightarrow> sc_step e (Some s) (Some t)"
  by (simp add: sc_step_def)

lemma sc_step_warn' [simp]: "sc_step e (Some (s\<lparr>sc_warn := w\<rparr>)) t \<longleftrightarrow> sc_step e (Some s) t"
  by (cases t) (simp_all add: sc_step_def)

lemma sysctl_set_step:
  "sysctl_set e name val opt globbed st = Some (ok, v', st') \<Longrightarrow> sc_step e (Some st) (Some st')"
  by (auto simp: sysctl_set_def Let_def sc_step_def sc_allowed_def split: option.splits if_splits)

lemma glob_loop_Cons:
  assumes "glob_loop e (p # ps) val opt stb ret st = Some res"
  obtains (skip) st1 stb1 ret1 where "sc_log st1 = sc_log st" "sc_entries st1 = sc_entries st"
    "sc_stat e p \<noteq> None \<Longrightarrow> ret1 = ret" "glob_loop e ps val opt stb1 ret1 st1 = Some res"
  | (set) st1 stb1 ret1 ok v1 st2 where "sc_log st1 = sc_log st" "sc_entries st1 = sc_entries st"
    "sc_stat e p \<noteq> None \<Longrightarrow> ret1 = ret" "drop 10 p \<notin> sc_entries st"
    "sysctl_set e (drop 10 p) val opt True st1 = Some (ok, v1, st2)"
    "glob_loop e ps v1 opt stb1 (ret1 \<and> ok) st2 = Some res"
proof (cases "drop 10 p \<in> sc_entries st")
  case True
  with assms skip show ?thesis by simp
next
  case False
  define st1 where "st1 = (case sc_stat e p of None \<Rightarrow> st\<lparr>sc_warn := sc_warn st @ [''failed to stat '' @ p]\<rparr> | Some _ \<Rightarrow> st)"
  define ret1 where "ret1 = (case sc_stat e p of None \<Rightarrow> False | Some _ \<Rightarrow> ret)"
  define stb1 where "stb1 = (case sc_stat e p of None \<Rightarrow> stb | Some k \<Rightarrow> Some k)"
  note d = st1_def ret1_def stb1_def
  from assms False obtain k where k: "stb1 = Some k"
    by (cases "sc_stat e p"; cases stb) (auto simp: d Let_def)
  have same: "sc_log st1 = sc_log st" "sc_entries st1 = sc_entries st" "sc_stat e p \<noteq> None \<Longrightarrow> ret1 = ret"
    by (auto simp: d split: option.splits)
  show ?thesis
  proof (cases "k = S_REG")
    case True
    with assms False k obtain ok v1 st2 where "sysctl_set e (drop 10 p) val opt True st1 = Some (ok, v1, st2)"
      "glob_loop e ps v1 opt stb1 (ret1 \<and> ok) st2 = Some res"
      by (cases "sc_stat e p") (auto simp: d Let_def split: bind_splits)
    with same False set show ?thesis by blast
  next
    case False
    with assms \<open>drop 10 p \<notin> sc_entries st\<close> k have "glob_loop e ps val opt stb1 ret1 st1 = Some res"
      by (cases "sc_stat e p") (auto simp: d Let_def)
    with same skip show ?thesis by blast
  qed
qed

lemma glob_loop_step:
  "glob_loop e ps val opt stb ret st = Some (ok, v', st') \<Longrightarrow> sc_step e (Some st) (Some st')"
proof (induction ps arbitrary: val stb ret st)
  case (Cons p ps)
  have eq: "sc_step e (Some st1) t \<longleftrightarrow> sc_step e (Some st) t"
    if "sc_log st1 = sc_log st" "sc_entries st1 = sc_entries st" for st1 t
    using that by (cases t) (simp_all add: sc_step_def)
  from Cons.prems show ?case
  proof (cases rule: glob_loop_Cons)
    case skip
    with Cons.IH eq show ?thesis by blast
  next
    case (set st1 stb1 ret1 b v1 st2)
    from sysctl_set_step [OF set(5)] eq [OF set(1,2)] have "sc_step e (Some st) (Some st2)" by blast
    from this Cons.IH [OF set(6)] show ?thesis by (rule sc_step_trans)
  qed
qed simp

lemma load_sysctl_step:
  "load_sysctl e name val opt st = Some (ok, v', st') \<Longrightarrow> sc_step e (Some st) (Some st')"
  by (auto simp: load_sysctl_def Let_def split: if_splits glob_result.splits dest: glob_loop_step sysctl_set_step)

lemma load_lines_step: "load_lines e ls fret st = Some (ok, st') \<Longrightarrow> sc_step e (Some st) (Some st')"
proof (induction ls arbitrary: fret st)
  case (Cons l ls)
  then show ?case
    by (fastforce split: sc_line.splits bind_splits dest: load_sysctl_step intro: sc_step_trans)
qed simp

interpretation sysctl: conf_loader "sysctl_load_conf e" "sc_step e" for e
proof unfold_locales
  fix f s ok t
  assume "sysctl_load_conf e f s = (ok, t)"
  then show "sc_step e s t"
    by (auto simp: sysctl_load_conf_def split: option.splits prod.splits dest: load_lines_step)
qed (auto intro: sc_step_trans)

text \<open>The run of the program on its files.\<close>

lemma sysctl_main_step:
  assumes "sysctl_main e argc = (r, t)"
  shows "sc_step e (Some \<lparr>sc_entries = {}, sc_log = [], sc_warn = []\<rparr>) t"
proof -
  have "process_all (sysctl_load_conf e) (sysctl_scan e) s = (ok, u) \<Longrightarrow> sc_step e s u" for s ok u
    unfolding sysctl_scan_def by (rule sysctl.process_all_step)
  with assms show ?thesis
    by (fastforce simp: sysctl_main_def Let_def split: if_splits prod.splits
      dest: sysctl.load_step intro: sc_step_trans)
qed

text \<open>
  C29: Everything a run of the program writes below \<open>/proc/sys\<close> is a text without NUL
  that ends in a newline, and a dry run writes nothing.
\<close>

theorem sysctl_writes:
  assumes "sysctl_main e argc = (r, Some st)" and "ScWrite name out \<in> set (sc_log st)"
  shows "\<not> sc_dry_run e \<and> out \<noteq> [] \<and> last out = NL \<and> NUL \<notin> set out"
  using sysctl_main_step [OF assms(1)] assms(2)
  by (auto simp: sc_step_def adds_def sc_allowed_def list_all_iff)

section \<open>Explicit entries and globs\<close>

definition sc_target :: "sc_call \<Rightarrow> string" where
  "sc_target c = (case c of ScOpen n \<Rightarrow> n | ScWrite n _ \<Rightarrow> n)"

definition glob_name :: "string \<Rightarrow> bool" where
  "glob_name name \<longleftrightarrow> strcspn name ''*?['' < length name"

lemma sysctl_set_target:
  assumes "sysctl_set e name val opt globbed st = Some (ok, v', st')"
  shows "adds (\<lambda>c. sc_target c = name) (sc_log st) (sc_log st') \<and>
    sc_entries st' = (if globbed then sc_entries st else insert name (sc_entries st))"
  using assms by (auto simp: sysctl_set_def Let_def sc_target_def split: option.splits if_splits)

lemma glob_loop_target:
  assumes "glob_loop e ps val opt stb ret st = Some (ok, v', st')"
  shows "adds (\<lambda>c. sc_target c \<in> drop 10 ` set ps - sc_entries st) (sc_log st) (sc_log st') \<and>
    sc_entries st' = sc_entries st"
  using assms
proof (induction ps arbitrary: val stb ret st)
  case (Cons p ps)
  have mono: "adds (\<lambda>c. sc_target c \<in> drop 10 ` set ps - sc_entries st) l l' \<Longrightarrow>
      adds (\<lambda>c. sc_target c \<in> drop 10 ` set (p # ps) - sc_entries st) l l'" for l l'
    by (erule adds_mono) auto
  from Cons.prems show ?case
  proof (cases rule: glob_loop_Cons)
    case skip
    with Cons.IH [OF skip(4)] mono show ?thesis by auto
  next
    case (set st1 stb1 ret1 b v1 st2)
    from sysctl_set_target [OF set(5)] set(1,2,4)
    have "adds (\<lambda>c. sc_target c \<in> drop 10 ` set (p # ps) - sc_entries st) (sc_log st) (sc_log st2)"
      "sc_entries st2 = sc_entries st" by (auto elim: adds_mono)
    with Cons.IH [OF set(6)] mono show ?thesis by (auto intro: adds_trans)
  qed
qed simp

text \<open>
  C16: A glob never opens or writes an entry that an explicit line before it named, and adds none
  to the exclusions; an explicit line touches exactly its own entry and excludes it from later
  globs.
\<close>

theorem sysctl_glob_excludes:
  assumes "load_sysctl e name v opt st = Some (ok, v', st')"
  shows "if glob_name (sysctl_name name)
    then adds (\<lambda>c. sc_target c \<notin> sc_entries st) (sc_log st) (sc_log st') \<and> sc_entries st' = sc_entries st
    else adds (\<lambda>c. sc_target c = sysctl_name name) (sc_log st) (sc_log st') \<and>
      sc_entries st' = insert (sysctl_name name) (sc_entries st)"
proof (cases "glob_name (sysctl_name name)")
  case True
  with assms show ?thesis
    by (auto simp: load_sysctl_def Let_def glob_name_def split: glob_result.splits
      dest!: glob_loop_target elim: adds_mono)
next
  case False
  with assms have "sysctl_set e (sysctl_name name) v opt False st = Some (ok, v', st')"
    by (simp add: load_sysctl_def Let_def glob_name_def)
  from sysctl_set_target [OF this] False show ?thesis by simp
qed

section \<open>Optional entries\<close>

lemma sysctl_set_opt: "sysctl_set e name v True g st = Some (ok, v', st') \<Longrightarrow> ok"
  by (auto simp: sysctl_set_def Let_def split: option.splits if_splits)

lemma glob_loop_opt:
  "glob_loop e ps v True stb ret st = Some (ok, v', st') \<Longrightarrow> ret \<Longrightarrow> (\<And>p. sc_stat e p \<noteq> None) \<Longrightarrow> ok"
proof (induction ps arbitrary: v stb ret st)
  case (Cons p ps)
  from Cons.prems(1) show ?case
  proof (cases rule: glob_loop_Cons)
    case skip
    with Cons show ?thesis by blast
  next
    case (set st1 stb1 ret1 b v1 st2)
    with Cons.prems sysctl_set_opt [OF set(5)] Cons.IH [OF set(6)] show ?thesis by blast
  qed
qed simp

text \<open>
  Setting an optional entry never counts as a failure, unless globbing itself or looking at a
  match fails.
\<close>

lemma sysctl_optional_ok:
  assumes "load_sysctl e name v True st = Some (ok, v', st')"
    and "\<And>p. sc_glob e p \<noteq> GlobError" and "\<And>p. sc_stat e p \<noteq> None"
  shows "ok"
  using assms
  by (auto simp: load_sysctl_def Let_def split: if_splits glob_result.splits dest: sysctl_set_opt glob_loop_opt)

section \<open>Concrete runs\<close>

text \<open>
  Three interfaces match a glob; every write succeeds. The files of \<open>/etc/sysctl.d\<close> and
  \<open>/etc/sysctl.conf\<close> are as given.
\<close>

definition sc_demo :: "string \<Rightarrow> sc_env" where
  "sc_demo conf =
     \<lparr>sc_proc = True, sc_dry_run = False, sc_openat = (\<lambda>l n. 0), sc_written = (\<lambda>l n out. int (length out)),
      sc_glob = (\<lambda>p. GlobOk [''/proc/sys/net/a'', ''/proc/sys/net/b'']),
      sc_stat = (\<lambda>p. Some S_REG),
      sc_file = (\<lambda>f. if f = ''/etc/sysctl.d/sysctl.conf'' then Some conf
                    else if f = ''/etc/sysctl.conf'' then Some ''a.c=9\<newline>'' else None),
      sc_dirs = (\<lambda>d. if d = ''/etc/sysctl.d'' then Some [\<lparr>d_name = ''sysctl.conf'', d_type = S_LNK, d_target = Some S_REG\<rparr>]
                    else None),
      sc_access = True\<rparr>"

abbreviation (input) sc_start :: sc_state where
  "sc_start \<equiv> \<lparr>sc_entries = {''net/a''}, sc_log = [], sc_warn = []\<rparr>"

text \<open>
  The second match of a glob gets the value with two newlines, and where the line has no byte
  to spare, setting the second match reads past the end of the line: the newline of the first
  write replaced the end of the value.
\<close>

lemma sysctl_glob_newlines:
  "map_option (sc_log \<circ> snd \<circ> snd) (load_sysctl (sc_demo []) ''net.*'' (Some [CHR ''1'', NUL, NUL]) False
     \<lparr>sc_entries = {}, sc_log = [], sc_warn = []\<rparr>) =
   Some [ScOpen ''net/a'', ScWrite ''net/a'' ''1\<newline>'', ScOpen ''net/b'', ScWrite ''net/b'' ''1\<newline>\<newline>''] \<and>
   load_sysctl (sc_demo []) ''net.*'' (Some [CHR ''1'', NUL]) False
     \<lparr>sc_entries = {}, sc_log = [], sc_warn = []\<rparr> = None"
  by code_simp

text \<open>
  \<open>/etc/sysctl.conf\<close> is loaded although a file of that name was handled before:
  the name looked up is \<open>etc/sysctl.conf\<close>.
\<close>

lemma sysctl_conf_not_skipped:
  "map_of (sysctl_scan (sc_demo ''a.c=1\<newline>'')) ''sysctl.conf'' = Some ''/etc/sysctl.d/sysctl.conf'' \<and>
   map_option sc_log (snd (sysctl_main (sc_demo ''a.c=1\<newline>'') 1)) =
     Some [ScOpen ''a/c'', ScWrite ''a/c'' ''1\<newline>'', ScOpen ''a/c'', ScWrite ''a/c'' ''9\<newline>'']"
  by code_simp

lemma sc_demo_run:
  "sysctl_main (sc_demo ''a.c=1\<newline>'') 1 =
    (0, Some \<lparr>sc_entries = {''a/c''}, sc_log = [ScOpen ''a/c'', ScWrite ''a/c'' ''1\<newline>'', ScOpen ''a/c'',
       ScWrite ''a/c'' ''9\<newline>''], sc_warn = []\<rparr>)"
  by code_simp

theorem sysctl_writes_witness:
  "\<not> sc_dry_run (sc_demo ''a.c=1\<newline>'') \<and> last ''1\<newline>'' = NL"
  using sysctl_writes [OF sc_demo_run, of "''a/c''" "''1\<newline>''"] by simp

lemma sc_demo_glob:
  "load_sysctl (sc_demo []) ''net.*'' (Some [CHR ''1'', NUL]) True sc_start =
    Some (True, Some ''1\<newline>'', \<lparr>sc_entries = {''net/a''}, sc_log = [ScOpen ''net/b'', ScWrite ''net/b'' ''1\<newline>''], sc_warn = []\<rparr>)"
  by code_simp

theorem sysctl_glob_excludes_witness:
  "glob_name (sysctl_name ''net.*'') \<and>
   adds (\<lambda>c. sc_target c \<notin> {''net/a''}) [] [ScOpen ''net/b'', ScWrite ''net/b'' ''1\<newline>'']"
proof -
  have "glob_name (sysctl_name ''net.*'')" by code_simp
  with sysctl_glob_excludes [OF sc_demo_glob] show ?thesis by simp
qed

theorem sysctl_optional_ok_witness:
  "\<exists>ok v st. load_sysctl (sc_demo []) ''net.*'' (Some [CHR ''1'', NUL]) True sc_start = Some (ok, v, st) \<and> ok"
  by (intro exI conjI, rule sc_demo_glob, rule sysctl_optional_ok [OF sc_demo_glob]) (simp_all add: sc_demo_def)

end
