(* ===== verification/Kmod.thy ===== *)
theory Kmod
  imports ConfDir
begin

text \<open>
  The kernel module loader, \<^verbatim>\<open>src/early/helpers/kmod.cc\<close>: the parser of the kernel command line,
  loading one module through libkmod, the configuration files, the list of early modules, and
  \<open>main\<close>.

  libkmod and the kernel are the record \<open>km_env\<close>. The trace holds the modules that were
  probed, in order; states and results may depend on it, since probing one module can load
  others. \<open>None\<close> stands for undefined behaviour (an empty buffer in \<open>do_static_modules\<close>, which
  only a NUL in the file can cause).
\<close>

section \<open>Environment\<close>

datatype km_initstate = KMOD_MODULE_BUILTIN | KMOD_MODULE_LIVE | KMOD_MODULE_COMING | KMOD_MODULE_GOING
  | KMOD_MODULE_ERROR

text \<open>
  \<open>km_lookup\<close> is the result of \<open>kmod_module_new_from_lookup\<close> with its list, \<open>km_probe\<close> that of
  \<open>kmod_module_probe_insert_module\<close>, and \<open>km_blacklisted\<close> the constant
  \<open>KMOD_PROBE_APPLY_BLACKLIST\<close>. The \<open>open\<close> fields are 0 or an error number; \<open>km_uname\<close> is the
  release, \<open>km_devname\<close> the content of \<open>modules.devname\<close> once it is open as a stream.
\<close>

record km_env =
  km_proc_modules :: int
  km_new :: bool
  km_cmdline :: "string option"
  km_lookup :: "string list \<Rightarrow> string \<Rightarrow> int \<times> string list"
  km_initstate :: "string list \<Rightarrow> string \<Rightarrow> km_initstate"
  km_probe :: "string list \<Rightarrow> string \<Rightarrow> int"
  km_blacklisted :: int
  km_file :: "string \<Rightarrow> string option"
  km_dirs :: "string \<Rightarrow> dirent list option"
  km_open_modules :: int
  km_uname :: "string option"
  km_open_kernel :: "string \<Rightarrow> int"
  km_open_devname :: "string \<Rightarrow> int"
  km_devname :: "string \<Rightarrow> string option"

definition kmod_paths :: "string list" where
  "kmod_paths = [''/etc/modules-load.d'', ''/run/modules-load.d'', ''/usr/local/lib/modules-load.d'', ''/usr/lib/modules-load.d'']"

section \<open>The kernel command line\<close>

text \<open>
  The loop over a comma separated list: the words, the rest of the line, and the character
  before the rest. Each separator is overwritten with a NUL.
\<close>

function word_loop :: "string \<Rightarrow> char \<Rightarrow> string list \<Rightarrow> string list \<times> string \<times> char" where
  "word_loop p prev ws =
     (let w = strcspn p '', ''
      in if w = 0 then (ws, p, prev)
         else
           let ws = ws @ [take w p]
           in if w = length p then (ws, [], last p)
              else if p ! w = CHR '','' then word_loop (drop (w + 1) p) NUL ws
              else (ws, drop (w + 1) p, NUL))"
  by pat_completeness auto
termination
proof (relation "measure (\<lambda>(p, prev, ws). length p)", goal_cases)
  case (2 p prev ws w ws')
  then show ?case using strcspn_le [of p "'', ''"] by auto
qed simp

declare word_loop.simps [simp del]

lemma word_loop_length: "word_loop p prev ws = (ws', r, c) \<Longrightarrow> length r \<le> length p"
proof (induction p prev ws rule: word_loop.induct)
  case (1 p prev ws)
  then show ?case
    by (subst (asm) (2) word_loop.simps) (fastforce simp: Let_def split: if_splits)
qed

text \<open>
  The outer loop. \<open>p\<close> is the text from the pointer on and \<open>prev\<close> the character before it, \<open>None\<close>
  at the start of the buffer. The result is the list of modules to load and the blacklist.
\<close>

function cmdline_loop :: "string \<Rightarrow> char option \<Rightarrow> string list \<times> string set \<Rightarrow> string list \<times> string set" where
  "cmdline_loop p prev acc =
     (case strstr p ''module'' of
        None \<Rightarrow> acc
      | Some (before, p) \<Rightarrow>
          let prev = (if before = [] then prev else Some (last before))
          in if prev \<noteq> None \<and> prev \<noteq> Some NUL \<and> prev \<noteq> Some (CHR '' '') then
               cmdline_loop (drop 6 p) (Some (CHR ''e'')) acc
             else
               let e = strcspn p ''= ''
               in if e = length p then acc
                  else if p ! e = CHR '' '' then cmdline_loop (drop (e + 1) p) (Some (CHR '' '')) acc
                  else
                    let load = (strneq p ''modules_load'' e \<or> strneq p ''modules-load'' e)
                    in if \<not> load \<and> \<not> strneq p ''module_blacklist'' e
                       then cmdline_loop (drop (e + 1) p) (Some (CHR ''='')) acc
                       else
                         case word_loop (drop (e + 1) p) (CHR ''='') [] of (ws, p, c) \<Rightarrow>
                           cmdline_loop p (Some c)
                             (if load then (fst acc @ ws, snd acc) else (fst acc, snd acc \<union> set ws)))"
  by pat_completeness auto
termination
proof (relation "measure (\<lambda>(p, prev, acc). length p)", goal_cases)
  case (5 p prev acc a before q)
  then show ?case
    by (auto dest!: strstr_Some word_loop_length [OF sym] simp: prefix_def)
qed (auto dest!: strstr_Some simp: prefix_def)

declare cmdline_loop.simps [simp del]

text \<open>At most 4096 bytes are read into a zeroed buffer, and one newline at the end is dropped.\<close>

definition parse_cmdline :: "string option \<Rightarrow> string list \<times> string set" where
  "parse_cmdline content =
     (case content of
        None \<Rightarrow> ([], {})
      | Some c \<Rightarrow>
          let kerncmd = take 4096 c;
              kerncmd = (if kerncmd \<noteq> [] \<and> last kerncmd = NL then butlast kerncmd else kerncmd)
          in cmdline_loop (cstr kerncmd) None ([], {}))"

section \<open>Loading a module\<close>

fun mod_load_loop :: "km_env \<Rightarrow> string set \<Rightarrow> string \<Rightarrow> string list \<Rightarrow> int \<Rightarrow> string list \<Rightarrow> int \<times> string list" where
  "mod_load_loop e bl modname [] ret l = (ret, l)"
| "mod_load_loop e bl modname (km # ms) ret l =
     (if km_initstate e l km \<in> {KMOD_MODULE_BUILTIN, KMOD_MODULE_LIVE} then mod_load_loop e bl modname ms ret l
      else
        let r = km_probe e l km; l = l @ [km]
        in if r = 0 \<or> r = km_blacklisted e then mod_load_loop e bl modname ms ret l
           else if r = - EPERM \<and> modname \<in> bl then mod_load_loop e bl modname ms ret l
           else if r = - ENODEV \<or> r = - ENOENT then mod_load_loop e bl modname ms ret l
           else mod_load_loop e bl modname ms r l)"

definition mod_load :: "km_env \<Rightarrow> string set \<Rightarrow> string \<Rightarrow> string list \<Rightarrow> int \<times> string list" where
  "mod_load e bl modname l =
     (case km_lookup e l modname of (ret, modlist) \<Rightarrow>
        if ret < 0 then (ret, l)
        else if modlist = [] then (0, l)
        else mod_load_loop e bl modname modlist ret l)"

section \<open>Configuration files\<close>

text \<open>
  The name passed on is the whole line without trailing space; leading space, skipped for the
  test for comments, stays.
\<close>

definition conf_module :: "string \<Rightarrow> string option" where
  "conf_module l =
     (let cline = lstrip (cstr l)
      in if cline = [] \<or> hd cline = CHR ''#'' \<or> hd cline = CHR '';'' then None
         else Some (rstrip (cstr l)))"

fun kmod_lines :: "km_env \<Rightarrow> string set \<Rightarrow> string list \<Rightarrow> bool \<Rightarrow> string list \<Rightarrow> bool \<times> string list" where
  "kmod_lines e bl [] fret l = (fret, l)"
| "kmod_lines e bl (x # xs) fret l =
     (case conf_module x of
        None \<Rightarrow> kmod_lines e bl xs fret l
      | Some modname \<Rightarrow>
          case mod_load e bl modname l of (ret, l) \<Rightarrow> kmod_lines e bl xs (fret \<and> \<not> ret < 0) l)"

definition kmod_load_conf :: "km_env \<Rightarrow> string set \<Rightarrow> string \<Rightarrow> string list \<Rightarrow> bool \<times> string list" where
  "kmod_load_conf e bl s l =
     (case km_file e s of None \<Rightarrow> (False, l) | Some content \<Rightarrow> kmod_lines e bl (getlines content) True l)"

section \<open>Early modules\<close>

text \<open>
  The rest of a line that did not fit into the buffer of 256 bytes is read and dropped; \<open>None\<close>
  as a result of \<open>skip_rest\<close> is the undefined access to the byte before the buffer, and the
  inner \<open>None\<close> is the end of the file.
\<close>

function skip_rest :: "string \<Rightarrow> string \<Rightarrow> string option option" where
  "skip_rest line stream =
     (if line = [] then None
      else if last line = NL then Some (Some stream)
      else case fgets 256 stream of
             None \<Rightarrow> Some None
           | Some (buf, rest) \<Rightarrow> skip_rest (cstr buf) rest)"
  by pat_completeness auto
termination
  by (relation "measure (\<lambda>(line, stream). length stream)")
    (auto dest: fgets_length)

declare skip_rest.simps [simp del]

lemma skip_rest_length: "skip_rest line stream = Some (Some r) \<Longrightarrow> length r \<le> length stream"
proof (induction line stream rule: skip_rest.induct)
  case (1 line stream)
  show ?case
  proof (cases "line = [] \<or> last line = NL")
    case True
    with 1(2) show ?thesis by (auto simp: skip_rest.simps [of line stream] split: if_splits)
  next
    case False
    with 1(2) obtain buf rest where f: "fgets 256 stream = Some (buf, rest)"
      and s: "skip_rest (cstr buf) rest = Some (Some r)"
      by (auto simp: skip_rest.simps [of line stream] split: option.splits)
    from f have "length rest < length stream" by (rule fgets_length) simp
    moreover have "length r \<le> length rest" using 1(1) [of "(buf, rest)" buf rest] False f s by simp
    ultimately show ?thesis by simp
  qed
qed

function static_loop :: "km_env \<Rightarrow> string set \<Rightarrow> string \<Rightarrow> string list \<Rightarrow> string list option" where
  "static_loop e bl stream l =
     (case fgets 256 stream of
        None \<Rightarrow> Some l
      | Some (buf, rest) \<Rightarrow>
          let line = cstr buf;
              modname = takeWhile (\<lambda>c. c \<noteq> CHR '' '') line;
              l = (if modname = [] \<or> hd modname \<noteq> CHR ''#'' then snd (mod_load e bl modname l) else l)
          in case skip_rest line rest of
               None \<Rightarrow> None
             | Some None \<Rightarrow> Some l
             | Some (Some rest) \<Rightarrow> static_loop e bl rest l)"
  by pat_completeness auto
termination
proof (relation "measure (\<lambda>(e, bl, stream, l). length stream)", goal_cases)
  case (2 e bl stream l a buf rest line modname l' r rest')
  then have "length rest < length stream" "length rest' \<le> length rest"
    by (auto dest: fgets_length skip_rest_length)
  then show ?case by simp
qed simp

declare static_loop.simps [simp del]

definition do_static_modules :: "km_env \<Rightarrow> string set \<Rightarrow> string list \<Rightarrow> (nat \<times> string list) option" where
  "do_static_modules e bl l =
     (if km_open_modules e \<noteq> 0 then Some (if km_open_modules e = ENOENT then 0 else 2, l)
      else case km_uname e of
        None \<Rightarrow> Some (2, l)
      | Some release \<Rightarrow>
          if km_open_kernel e release \<noteq> 0 then Some (if km_open_kernel e release = ENOENT then 0 else 2, l)
          else if km_open_devname e release \<noteq> 0 then Some (if km_open_devname e release = ENOENT then 0 else 2, l)
          else case km_devname e release of
            None \<Rightarrow> Some (2, l)
          | Some content \<Rightarrow> map_option (\<lambda>l. (0, l)) (static_loop e bl content l))"

section \<open>The program\<close>

definition do_load :: "km_env \<Rightarrow> string set \<Rightarrow> string \<Rightarrow> string list \<Rightarrow> nat \<times> string list" where
  "do_load e bl modname l =
     (case mod_load e bl modname l of (ret, l) \<Rightarrow> (if ret < 0 then 2 else 0, l))"

definition kmod_accept :: "dirent \<Rightarrow> bool" where
  "kmod_accept dp \<longleftrightarrow> d_type dp = S_REG"

definition kmod_scan :: "km_env \<Rightarrow> got_map" where
  "kmod_scan e = scan_paths kmod_accept (km_dirs e) kmod_paths []"

text \<open>The command \<open>modules\<close>: the modules of the command line, then the files.\<close>

definition do_modules :: "km_env \<Rightarrow> string list \<Rightarrow> string set \<Rightarrow> nat \<times> string list" where
  "do_modules e mods bl =
     (let (ok, l) = fold (\<lambda>m (ok, l). case do_load e bl m l of (r, l) \<Rightarrow> (ok \<and> r = 0, l)) mods (True, []);
          (ok', l) = process_all (kmod_load_conf e bl) (kmod_scan e) l
      in (if ok \<and> ok' then 0 else 2, l))"

definition kmod_main :: "km_env \<Rightarrow> string list \<Rightarrow> (nat \<times> string list) option" where
  "kmod_main e args =
     (case args of
        [] \<Rightarrow> Some (1, [])
      | cmd # rest \<Rightarrow>
          if cmd \<notin> {''static-modules'', ''modules'', ''load''} then Some (1, [])
          else if cmd = ''load'' \<and> rest = [] then Some (1, [])
          else if km_proc_modules e = ENOENT then Some (0, [])
          else if \<not> km_new e then Some (1, [])
          else
            let (mods, bl) = parse_cmdline (km_cmdline e)
            in if cmd = ''static-modules'' then do_static_modules e bl []
               else if cmd = ''load'' then Some (do_load e bl (hd rest) [])
               else Some (do_modules e mods bl))"

section \<open>The command line as a list of parameters\<close>

text \<open>
  What the parser should do, said without pointers: the parameters are separated by spaces,
  and a parameter with a matching key and a value adds the words of the value, up to the
  first empty one. The key matches as \<open>strncmp\<close> with the length of the key has it.
\<close>

definition params :: "string \<Rightarrow> string list" where
  "params s = strsep_loop s '' ''"

definition value_words :: "string \<Rightarrow> string list" where
  "value_words v = takeWhile (\<lambda>w. w \<noteq> []) (strsep_loop v '','')"

definition add_param :: "string list \<times> string set \<Rightarrow> string \<Rightarrow> string list \<times> string set" where
  "add_param acc q =
     (let k = strcspn q ''=''; ws = value_words (drop (k + 1) q)
      in if \<not> prefix ''module'' q \<or> k = length q then acc
         else if strneq q ''modules_load'' k \<or> strneq q ''modules-load'' k then (fst acc @ ws, snd acc)
         else if strneq q ''module_blacklist'' k then (fst acc, snd acc \<union> set ws)
         else acc)"

definition at_start :: "char option \<Rightarrow> bool" where
  "at_start prev \<longleftrightarrow> prev = None \<or> prev = Some NUL \<or> prev = Some (CHR '' '')"

definition todo :: "char option \<Rightarrow> string \<Rightarrow> string list" where
  "todo prev s = (if at_start prev then params s else tl (params s))"

lemma params_nonempty [simp]: "params s \<noteq> []"
  by (simp add: params_def)

lemma params_Nil [simp]: "params [] = [[]]"
  by (simp add: params_def)

lemma params_space [simp]: "params (CHR '' '' # s) = [] # params s"
  by (simp add: params_def)

lemma params_Cons: "c \<noteq> CHR '' '' \<Longrightarrow> params (c # s) = (c # hd (params s)) # tl (params s)"
  by (simp add: params_def split: list.splits)

lemma params_append:
  "CHR '' '' \<notin> set a \<Longrightarrow> params (a @ s) = (a @ hd (params s)) # tl (params s)"
  by (induction a) (auto simp: params_Cons)

lemma params_split:
  "\<exists>r. s = hd (params s) @ r \<and> CHR '' '' \<notin> set (hd (params s)) \<and> (r = [] \<or> hd r = CHR '' '')
     \<and> tl (params s) = (if r = [] then [] else params (tl r))"
proof (induction s)
  case (Cons c s)
  show ?case
  proof (cases "c = CHR '' ''")
    case True
    then show ?thesis by simp
  next
    case False
    with Cons.IH show ?thesis by (auto simp: params_Cons)
  qed
qed simp

lemma prefix_hd_params: "prefix (hd (params s)) s"
  using params_split [of s] by (metis prefixI)

lemma add_param_other: "\<not> prefix ''module'' q \<Longrightarrow> add_param acc q = acc"
  by (simp add: add_param_def)

lemma foldl_todo:
  assumes "\<not> prefix ''module'' (hd (params s))"
  shows "foldl add_param acc (todo prev s) = foldl add_param acc (tl (params s))"
  using assms by (cases "params s") (auto simp: todo_def add_param_other)

lemma value_words_Nil [simp]: "value_words [] = []"
  by (simp add: value_words_def)

lemma value_words_comma [simp]: "value_words (CHR '','' # s) = []"
  by (simp add: value_words_def)

lemma strsep_comma: "CHR '','' \<notin> set a \<Longrightarrow> strsep_loop a '','' = [a]"
  by (rule strsep_loop_no_delim) auto

lemma value_words_word: "CHR '','' \<notin> set a \<Longrightarrow> a \<noteq> [] \<Longrightarrow> value_words a = [a]"
  by (simp add: value_words_def strsep_comma)

lemma value_words_append:
  "CHR '','' \<notin> set a \<Longrightarrow> a \<noteq> [] \<Longrightarrow> value_words (a @ CHR '','' # s) = a # value_words s"
  by (simp add: value_words_def strsep_loop_append strsep_comma)

lemma take_strcspn: "c \<in> set r \<Longrightarrow> c \<notin> set (take (strcspn s r) s)"
  by (metis set_takeWhileD strcspn_def takeWhile_eq_take)

lemma word_loop_spec:
  assumes "word_loop p prev ws = (ws', x, c)" and "NUL \<notin> set p"
  shows "ws' = ws @ value_words (hd (params p)) \<and> length x \<le> length p \<and> NUL \<notin> set x \<and>
    (\<forall>acc. foldl add_param acc (todo (Some c) x) = foldl add_param acc (tl (params p)))"
  using assms
proof (induction p prev ws arbitrary: rule: word_loop.induct)
  case (1 p prev ws)
  let ?w = "strcspn p '', ''"
  let ?a = "take ?w p" and ?p = "drop (?w + 1) p"
  have a: "CHR '','' \<notin> set ?a" "CHR '' '' \<notin> set ?a" by (rule take_strcspn; simp)+
  consider (zero) "?w = 0" | (all) "?w \<noteq> 0" "?w = length p"
    | (comma) "?w \<noteq> 0" "?w \<noteq> length p" "p = ?a @ CHR '','' # ?p"
    | (space) "?w \<noteq> 0" "?w \<noteq> length p" "p = ?a @ CHR '' '' # ?p"
    using strcspn_less [of p "'', ''"] id_take_nth_drop [of ?w p] by force
  then show ?case
  proof cases
    case zero
    then have p: "p = [] \<or> hd p \<in> {CHR '','', CHR '' ''}"
      by (cases p) (auto simp: strcspn_def split: if_splits)
    then have "value_words (hd (params p)) = []" "\<not> prefix ''module'' (hd (params p))"
      by (cases p; auto simp: params_Cons)+
    with zero 1(2,3) foldl_todo [of p] show ?thesis by (auto simp: word_loop.simps [of p])
  next
    case all
    then have p: "params p = [p]" "value_words p = [p]"
      using a params_append [of p "[]"] by (auto simp: value_words_word)
    with all 1(2,3) foldl_todo [of "[]"] show ?thesis by (auto simp: word_loop.simps [of p] Let_def)
  next
    case comma
    have "p ! ?w = CHR '',''" using comma by (metis nth_append_length strcspn_le length_take min.absorb2)
    then have w: "word_loop ?p NUL (ws @ [?a]) = (ws', x, c)"
      using comma(1,2) 1(2) by (simp add: word_loop.simps [of p] Let_def)
    have "NUL \<notin> set ?p" using 1(3) by (auto dest: in_set_dropD)
    from 1(1) [OF refl comma(1) refl comma(2) \<open>p ! ?w = CHR '',''\<close> w this]
    have ih: "ws' = (ws @ [?a]) @ value_words (hd (params ?p))" "length x \<le> length ?p" "NUL \<notin> set x"
      "\<forall>acc. foldl add_param acc (todo (Some c) x) = foldl add_param acc (tl (params ?p))" by auto
    have "params p = (?a @ CHR '','' # hd (params ?p)) # tl (params ?p)"
      using comma(3) a params_append [of "?a @ [CHR '','']" ?p] by simp
    moreover have "?a \<noteq> []" using comma(1) by auto
    ultimately show ?thesis using ih a(1) by (simp add: value_words_append)
  next
    case space
    have "p ! ?w = CHR '' ''" using space by (metis nth_append_length strcspn_le length_take min.absorb2)
    then have "ws' = ws @ [?a]" "x = ?p" "c = NUL"
      using space(1,2) 1(2) by (simp_all add: word_loop.simps [of p] Let_def)
    moreover have "params p = ?a # params ?p"
      using space(3) a params_append [of ?a "CHR '' '' # ?p"] by simp
    moreover have "?a \<noteq> []" using space(1) by auto
    ultimately show ?thesis using a 1(3) by (auto simp: value_words_word todo_def at_start_def dest: in_set_dropD)
  qed
qed

lemma cmdline_Nil: "cmdline_loop [] prev acc = acc"
  by (simp add: cmdline_loop.simps)

lemma cmdline_skip:
  assumes "\<not> prefix ''module'' (c # s)"
  shows "cmdline_loop (c # s) prev acc = cmdline_loop s (Some c) acc"
proof -
  have "strstr (c # s) ''module'' = map_option (\<lambda>(a, b). (c # a, b)) (strstr s ''module'')"
    by (simp only: strstr.simps assms if_False)
  then show ?thesis
    by (cases "strstr s ''module''")
      (auto simp: cmdline_loop.simps [of "c # s"] cmdline_loop.simps [of s] simp del: strstr.simps)
qed

lemma strstr_prefix: "prefix pat s \<Longrightarrow> strstr s pat = Some ([], s)"
  by (cases s) auto

lemma cmdline_inside:
  assumes "prefix ''module'' s" and "\<not> at_start prev"
  shows "cmdline_loop s prev acc = cmdline_loop (drop 6 s) (Some (CHR ''e'')) acc"
  using assms by (simp add: cmdline_loop.simps [of s] strstr_prefix at_start_def)

lemma strcspn_append_notin: "(\<And>c. c \<in> set a \<Longrightarrow> c \<notin> set r) \<Longrightarrow> strcspn (a @ s) r = length a + strcspn s r"
  by (induction a) (auto simp: strcspn_Cons)

text \<open>A parameter at the start, whose first part up to the equals sign is \<open>k\<close> long.\<close>

lemma cmdline_param:
  assumes s: "s = q @ r" "CHR '' '' \<notin> set q" "r = [] \<or> hd r = CHR '' ''"
    and m: "prefix ''module'' q" and st: "at_start prev"
  defines "k \<equiv> strcspn q ''=''"
  shows "cmdline_loop s prev acc =
    (if k = length q then (if r = [] then acc else cmdline_loop (tl r) (Some (CHR '' '')) acc)
     else if strneq q ''modules_load'' k \<or> strneq q ''modules-load'' k \<or> strneq q ''module_blacklist'' k then
       (case word_loop (drop (k + 1) q @ r) (CHR ''='') [] of (ws, x, c) \<Rightarrow>
          cmdline_loop x (Some c)
            (if strneq q ''modules_load'' k \<or> strneq q ''modules-load'' k then (fst acc @ ws, snd acc)
             else (fst acc, snd acc \<union> set ws)))
     else cmdline_loop (drop (k + 1) q @ r) (Some (CHR ''='')) acc)"
proof -
  have pre: "prefix ''module'' s" using s m by auto
  have start: "\<not> (prev \<noteq> None \<and> prev \<noteq> Some NUL \<and> prev \<noteq> Some (CHR '' ''))"
    using st by (auto simp: at_start_def)
  have k: "k \<le> length q" by (simp add: k_def strcspn_le)
  show ?thesis
  proof (cases "k = length q")
    case True
    then have "CHR ''='' \<notin> set q" by (metis k_def take_strcspn take_all order.refl list.set_intros(1))
    then have e: "strcspn s ''= '' = length q"
      using s strcspn_append_notin [of q "''= ''" r] by (cases r) (auto simp: strcspn_Cons)
    have "length s = length q + length r" "r \<noteq> [] \<longrightarrow> s ! length q = CHR '' ''" "drop (Suc (length q)) s = tl r"
      using s(1,3) by (auto simp: nth_append hd_conv_nth drop_Suc drop_tl)
    with True start show ?thesis
      by (auto simp: cmdline_loop.simps [of s] strstr_prefix [OF pre] Let_def e)
  next
    case False
    then have kq: "k < length q" "q ! k = CHR ''=''" using strcspn_less [of q "''=''"] k by (auto simp: k_def)
    then have q: "q = take k q @ CHR ''='' # drop (Suc k) q" by (metis id_take_nth_drop)
    have "c \<notin> set ''= ''" if "c \<in> set (take k q)" for c
      using that s(2) take_strcspn [of "CHR ''=''" "''=''" q] by (auto simp: k_def dest: in_set_takeD)
    then have "strcspn (take k q @ CHR ''='' # drop (Suc k) q @ r) ''= '' = k"
      using kq by (simp add: strcspn_append_notin strcspn_Cons)
    then have e: "strcspn s ''= '' = k" using s(1) q by (metis append_Cons append_assoc)
    have n: "strneq s lit k \<longleftrightarrow> strneq q lit k" for lit using kq s(1) by (simp add: strneq_def)
    have sk: "s ! k = CHR ''=''" "k < length s" "drop (k + 1) s = drop (k + 1) q @ r"
      using kq s(1) by (simp_all add: nth_append)
    obtain ws x c where w: "word_loop (drop (k + 1) q @ r) (CHR ''='') [] = (ws, x, c)" by (metis prod_cases3)
    have "(if prev \<noteq> None \<and> prev \<noteq> Some NUL \<and> prev \<noteq> Some (CHR '' '') then a else b) = b"
      for a b :: "string list \<times> string set" using start by auto
    then show ?thesis
      using False sk w by (simp add: cmdline_loop.simps [of s] strstr_prefix [OF pre] Let_def e n)
  qed
qed

lemma hd_params_module:
  assumes "prefix ''module'' s"
  shows "prefix ''module'' (hd (params s))"
  using assms params_append [of "''module''"] by (auto simp: prefix_def)

lemma cmdline_loop_params:
  "NUL \<notin> set s \<Longrightarrow> cmdline_loop s prev acc = foldl add_param acc (todo prev s)"
proof (induction "length s" arbitrary: s prev acc rule: less_induct)
  case less
  consider (nil) "s = []" | (other) c t where "s = c # t" "\<not> prefix ''module'' s"
    | (inside) "prefix ''module'' s" "\<not> at_start prev" | (param) "prefix ''module'' s" "at_start prev"
    by (cases s) auto
  then show ?case
  proof cases
    case nil
    then show ?thesis using foldl_todo [of "[]"] by (simp add: cmdline_Nil)
  next
    case (other c t)
    then have "cmdline_loop s prev acc = foldl add_param acc (todo (Some c) t)"
      using less by (simp add: cmdline_skip)
    also have "\<dots> = foldl add_param acc (todo prev s)"
    proof (cases "c = CHR '' ''")
      case True
      with other show ?thesis by (simp add: todo_def at_start_def add_param_other)
    next
      case False
      have "\<not> prefix ''module'' (hd (params s))" using other prefix_hd_params [of s] prefix_order.trans by blast
      from foldl_todo [OF this] False other less.prems show ?thesis
        by (auto simp: todo_def at_start_def params_Cons)
    qed
    finally show ?thesis .
  next
    case inside
    then obtain u where u: "s = ''module'' @ u" by (auto simp: prefix_def)
    then have "cmdline_loop s prev acc = foldl add_param acc (todo (Some (CHR ''e'')) u)"
      using inside less by (simp add: cmdline_inside)
    then show ?thesis using inside(2) params_append [of "''module''" u]
      by (simp add: todo_def u) (simp add: at_start_def)
  next
    case param
    define q where "q = hd (params s)"
    define k where "k = strcspn q ''=''"
    obtain r where s: "s = q @ r" "CHR '' '' \<notin> set q" "r = [] \<or> hd r = CHR '' ''"
      "tl (params s) = (if r = [] then [] else params (tl r))"
      using params_split [of s] by (auto simp: q_def)
    have m: "prefix ''module'' q" unfolding q_def using param(1) by (rule hd_params_module)
    have nul: "NUL \<notin> set (drop n q @ r)" for n using less.prems s(1) by (auto dest: in_set_dropD)
    have todo: "todo prev s = q # tl (params s)" using param(2) by (simp add: todo_def q_def)
    have v: "hd (params (drop n q @ r)) = drop n q" "tl (params (drop n q @ r)) = tl (params s)" for n
    proof -
      have "CHR '' '' \<notin> set (drop n q)" using s(2) by (auto dest: in_set_dropD)
      from params_append [OF this, of r] s(3,4)
      show "hd (params (drop n q @ r)) = drop n q" "tl (params (drop n q @ r)) = tl (params s)"
        by (cases r; auto)+
    qed
    have shorter: "k \<noteq> length q \<Longrightarrow> length (drop (k + 1) q @ r) < length s"
      using strcspn_le [of q "''=''"] s(1) by (auto simp: k_def)
    have words: "cmdline_loop x (Some c) acc' = foldl add_param acc' (tl (params s)) \<and> ws = value_words (drop (k + 1) q)"
      if "k \<noteq> length q" "word_loop (drop (k + 1) q @ r) (CHR ''='') [] = (ws, x, c)" for ws x c acc'
      using word_loop_spec [OF that(2) nul] shorter [OF that(1)] less.hyps [of x "Some c" acc'] v
      by (simp del: split_paired_All)
    have inv: "cmdline_loop (drop (k + 1) q @ r) (Some (CHR ''='')) acc = foldl add_param acc (tl (params s))"
      if "k \<noteq> length q"
      using less.hyps [OF shorter [OF that] nul] v by (simp add: todo_def at_start_def)
    have last: "r \<noteq> [] \<Longrightarrow> cmdline_loop (tl r) (Some (CHR '' '')) acc = foldl add_param acc (tl (params s))"
      using less.hyps [of "tl r" "Some (CHR '' '')" acc] less.prems s by (cases r) (auto simp: todo_def at_start_def)
    show ?thesis
      unfolding cmdline_param [OF s(1,2,3) m param(2)] todo k_def [symmetric]
      using words inv last m s(4)
      by (auto simp: add_param_def Let_def k_def [symmetric] split: prod.splits)
  qed
qed

lemma parse_cmdline_params:
  "parse_cmdline (Some c) =
     (let text = take 4096 c; text = (if text \<noteq> [] \<and> last text = NL then butlast text else text)
      in foldl add_param ([], {}) (params (cstr text)))"
  by (simp add: parse_cmdline_def Let_def cmdline_loop_params todo_def at_start_def)

text \<open>
  C9: The pointer loop over the kernel command line, which searches for \<open>module\<close> and
  overwrites separators with NULs, computes what a split at the spaces gives: each parameter whose
  key matches contributes the comma separated words of its value, up to the first empty one, in
  order; text inside other parameters is never taken for a key.
\<close>

theorem kmod_cmdline_params:
  "parse_cmdline (Some c) =
     (let text = take 4096 c; text = (if text \<noteq> [] \<and> last text = NL then butlast text else text)
      in foldl add_param ([], {}) (params (cstr text)))"
  by (rule parse_cmdline_params)

text \<open>
  A key that is a proper prefix of a known key is taken for it: \<open>module=a,b\<close>
  loads \<open>a\<close> and \<open>b\<close>.
\<close>

lemma kmod_cmdline_prefix_keys:
  "parse_cmdline (Some ''module=a,b quiet module_blacklist=c modules-load=d\<newline>'') = ([''a'', ''b'', ''d''], {''c''})"
  by (simp add: parse_cmdline_params Let_def params_def cstr_def add_param_def value_words_def strcspn_def strneq_def)

section \<open>The result of loading a module\<close>

text \<open>
  The probes \<open>mod_load\<close> makes for the modules \<open>ms\<close> after the trace \<open>l\<close>, with their results, and
  the results that count as success.
\<close>

fun probes :: "km_env \<Rightarrow> string list \<Rightarrow> string list \<Rightarrow> (string \<times> int) list" where
  "probes e [] l = []"
| "probes e (km # ms) l =
     (if km_initstate e l km \<in> {KMOD_MODULE_BUILTIN, KMOD_MODULE_LIVE} then probes e ms l
      else (km, km_probe e l km) # probes e ms (l @ [km]))"

definition benign :: "km_env \<Rightarrow> string set \<Rightarrow> string \<Rightarrow> int \<Rightarrow> bool" where
  "benign e bl modname r \<longleftrightarrow>
     r \<in> {0, km_blacklisted e, - ENODEV, - ENOENT} \<or> r = - EPERM \<and> modname \<in> bl"

lemma mod_load_loop_probes:
  "mod_load_loop e bl m ms ret l =
     (last (ret # filter (\<lambda>r. \<not> benign e bl m r) (map snd (probes e ms l))), l @ map fst (probes e ms l))"
  by (induction ms arbitrary: ret l) (auto simp: benign_def Let_def)

text \<open>
  Loading a module probes, in order, every module of the lookup that is not built in or live
  at its turn, also after failures; the result is the last failure that does not count as success
  (blacklisted, no device, not found, or not permitted for a name on the kernel's own blacklist),
  and 0 if there is none.
\<close>

lemma kmod_load_result:
  assumes "km_lookup e l m = (0, ms)"
  shows "mod_load e bl m l =
    (last (0 # filter (\<lambda>r. \<not> benign e bl m r) (map snd (probes e ms l))), l @ map fst (probes e ms l))"
  using assms by (simp add: mod_load_def mod_load_loop_probes)

section \<open>The command modules\<close>

text \<open>The module names of a file, and loading a list of modules one after the other.\<close>

definition file_modules :: "km_env \<Rightarrow> string \<Rightarrow> string list" where
  "file_modules e f =
     (case km_file e f of None \<Rightarrow> [] | Some c \<Rightarrow> List.map_filter conf_module (getlines c))"

definition load_seq :: "km_env \<Rightarrow> string set \<Rightarrow> string list \<Rightarrow> bool \<times> string list \<Rightarrow> bool \<times> string list" where
  "load_seq e bl ms =
     fold (\<lambda>m (ok, l). case mod_load e bl m l of (r, l) \<Rightarrow> (ok \<and> \<not> r < 0, l)) ms"

lemma load_seq_simps [simp]:
  "load_seq e bl [] x = x"
  "load_seq e bl (m # ms) (ok, l) =
     load_seq e bl ms (case mod_load e bl m l of (r, l) \<Rightarrow> (ok \<and> \<not> r < 0, l))"
  "load_seq e bl (ms @ ns) x = load_seq e bl ns (load_seq e bl ms x)"
  by (simp_all add: load_seq_def)

lemma kmod_lines_seq: "kmod_lines e bl xs ok l = load_seq e bl (List.map_filter conf_module xs) (ok, l)"
  by (induction xs arbitrary: ok l) (auto simp: map_filter_simps split: option.splits prod.splits)

lemma load_seq_ok:
  "load_seq e bl ms (ok, l) = (case load_seq e bl ms (True, l) of (ok', l') \<Rightarrow> (ok \<and> ok', l'))"
proof (induction ms arbitrary: ok l)
  case (Cons m ms)
  obtain r l' where "mod_load e bl m l = (r, l')" by (cases "mod_load e bl m l")
  with Cons.IH [of "ok \<and> \<not> r < 0" l'] Cons.IH [of "\<not> r < 0" l'] show ?case
    by (auto split: prod.splits)
qed simp

interpretation kmod: conf_loader "kmod_load_conf e bl" prefix for e bl
proof unfold_locales
  have "prefix l (snd (load_seq e bl ms (ok, l)))" for ms ok l
  proof (induction ms arbitrary: ok l)
    case (Cons m ms)
    obtain r l' where m: "mod_load e bl m l = (r, l')" by (cases "mod_load e bl m l")
    then have "prefix l l'" by (auto simp: mod_load_def mod_load_loop_probes split: prod.splits if_splits)
    with Cons.IH [of l' "ok \<and> \<not> r < 0"] m show ?case by (auto intro: prefix_order.trans)
  qed simp
  then show "kmod_load_conf e bl f s = (ok, t) \<Longrightarrow> prefix s t" for f s ok t
    by (auto simp: kmod_load_conf_def kmod_lines_seq split: option.splits) (metis snd_conv)
qed auto

lemma loads_load_seq:
  "loads (kmod_load_conf e bl) fs (ok, l) =
     (case load_seq e bl (concat (map (file_modules e) fs)) (True, l) of (ok', l') \<Rightarrow>
        (ok \<and> ok' \<and> list_all (\<lambda>f. km_file e f \<noteq> None) fs, l'))"
proof (induction fs arbitrary: ok l)
  case (Cons f fs)
  show ?case
  proof (cases "km_file e f")
    case None
    with Cons.IH show ?thesis by (simp add: kmod_load_conf_def file_modules_def split: prod.splits)
  next
    case (Some c)
    obtain ok1 l1 where 1: "load_seq e bl (file_modules e f) (True, l) = (ok1, l1)"
      by (cases "load_seq e bl (file_modules e f) (True, l)")
    obtain ok2 l2 where 2: "load_seq e bl (concat (map (file_modules e) fs)) (True, l1) = (ok2, l2)"
      by (cases "load_seq e bl (concat (map (file_modules e) fs)) (True, l1)")
    have "kmod_load_conf e bl f l = (ok1, l1)"
      using Some 1 by (simp add: kmod_load_conf_def kmod_lines_seq file_modules_def)
    moreover have "load_seq e bl (concat (map (file_modules e) fs)) (ok1, l1) = (ok1 \<and> ok2, l2)"
      using load_seq_ok [of e bl _ ok1 l1] 2 by simp
    ultimately show ?thesis using Cons.IH [of "ok \<and> ok1" l1] 1 2 Some by auto
  qed
qed simp


section \<open>The early modules\<close>

lemma getlines_nonempty: "s \<noteq> [] \<Longrightarrow> getlines s \<noteq> []"
  by (cases s) (auto split: list.splits)

text \<open>The buffer holds the first part of the line, whatever follows the line in the file.\<close>

lemma fgets_go_line:
  "s \<noteq> [] \<Longrightarrow> fgets_go n s = (take n (hd (getlines s)), drop n (hd (getlines s)) @ concat (tl (getlines s)))"
proof (induction n s rule: fgets_go.induct)
  case (1 s)
  then show ?case using concat_getlines [of s] getlines_nonempty [of s]
    by (metis concat.simps(2) drop0 fgets_go.simps(1) list.collapse take0)
next
  case (3 n c s)
  show ?case
  proof (cases "c = NL \<or> s = []")
    case True
    then show ?thesis by (cases n) auto
  next
    case False
    then obtain l ls where "getlines s = l # ls" using getlines_nonempty [of s] by (cases "getlines s") auto
    with False 3 show ?thesis by simp
  qed
qed simp

lemma getlines_line_end:
  "getlines s = l # ls \<Longrightarrow> l \<noteq> [] \<and> (last l = NL \<or> ls = []) \<and> getlines (concat ls) = ls \<and> NL \<notin> set (butlast l)"
proof (induction s arbitrary: l ls)
  case (Cons c s)
  then show ?case by (auto split: if_splits list.splits)
qed simp

lemma getlines_drop:
  assumes "getlines s = l # ls" and "n < length l"
  shows "getlines (drop n s) = drop n l # ls"
  using assms
proof (induction n arbitrary: s l)
  case (Suc n)
  then obtain c t where s: "s = c # t" by (cases s) auto
  with Suc.prems have "c \<noteq> NL" "getlines t = tl l # ls" by (auto split: if_splits list.splits)
  with Suc s show ?case by (cases l) auto
qed simp

lemma fgets_line:
  assumes "getlines s = l # ls"
  shows "fgets 256 s = Some (take 255 l, drop 255 l @ concat ls)"
  using assms fgets_go_line [of s 255] by (cases s) (auto simp: fgets_def)

lemma in_getlines: "getlines s = l # ls \<Longrightarrow> set l \<subseteq> set s \<and> set (concat ls) \<subseteq> set s"
  using concat_getlines [of s] by (metis concat.simps(2) set_append sup_ge1 sup_ge2)

lemma cstr_take: "NUL \<notin> set l \<Longrightarrow> cstr (take n l) = take n l"
  by (rule cstr_id) (auto dest: in_set_takeD)

text \<open>After the first part of a line, the rest of the line is skipped.\<close>

lemma skip_rest_line:
  assumes "NUL \<notin> set stream" "getlines stream = l # ls"
  shows "skip_rest (take 255 l) (drop 255 l @ concat ls) = Some (if last l = NL then Some (concat ls) else None)"
  using assms
proof (induction "length stream" arbitrary: stream l rule: less_induct)
  case less
  note le = getlines_line_end [OF less.prems(2)] and sub = in_getlines [OF less.prems(2)]
  show ?case
  proof (cases "length l \<le> 255")
    case True
    with le show ?thesis by (auto simp: skip_rest.simps [of l] fgets_def)
  next
    case False
    let ?l = "drop 255 l" and ?s = "drop 255 stream"
    have "stream = l @ concat ls" using concat_getlines [of stream] less.prems(2) by simp
    then have s: "?s = ?l @ concat ls" and shorter: "length ?s < length stream" using False by auto
    have g: "getlines ?s = ?l # ls" using getlines_drop [OF less.prems(2), of 255] False by simp
    have nul: "NUL \<notin> set ?s" "NUL \<notin> set ?l" using less.prems(1) sub by (auto dest: in_set_dropD)
    have "take 255 (butlast l) = take 255 l" using False by (simp add: take_butlast)
    then have "NL \<notin> set (take 255 l)" using le by (metis in_set_takeD)
    moreover have ne: "take 255 l \<noteq> []" using le by simp
    ultimately have nl: "last (take 255 l) \<noteq> NL" by (metis last_in_set)
    have "skip_rest (take 255 l) (?l @ concat ls) = skip_rest (take 255 ?l) (drop 255 ?l @ concat ls)"
      using ne nl fgets_line [OF g] nul
      by (simp add: skip_rest.simps [of "take 255 l"] cstr_take s del: drop_drop)
    also have "\<dots> = Some (if last ?l = NL then Some (concat ls) else None)"
      by (rule less.hyps [OF shorter nul(1) g])
    finally show ?thesis using False by (simp add: last_drop)
  qed
qed

definition static_step :: "km_env \<Rightarrow> string set \<Rightarrow> string \<Rightarrow> string list \<Rightarrow> string list" where
  "static_step e bl line l =
     (let m = takeWhile (\<lambda>c. c \<noteq> CHR '' '') (take 255 line)
      in if m = [] \<or> hd m \<noteq> CHR ''#'' then snd (mod_load e bl m l) else l)"

lemma static_loop_lines:
  assumes "NUL \<notin> set stream"
  shows "static_loop e bl stream l = Some (fold (static_step e bl) (getlines stream) l)"
  using assms
proof (induction "length stream" arbitrary: stream l rule: less_induct)
  case less
  show ?case
  proof (cases "getlines stream")
    case Nil
    then have "stream = []" using getlines_nonempty by blast
    then show ?thesis by (simp add: static_loop.simps fgets_def)
  next
    case (Cons x xs)
    note le = getlines_line_end [OF Cons] and sub = in_getlines [OF Cons]
    have len: "length (concat xs) < length stream"
      using concat_getlines [of stream] Cons le by (metis append_Nil concat.simps(2) length_append
        length_greater_0_conv less_add_same_cancel2)
    have ih: "static_loop e bl (concat xs) m = Some (fold (static_step e bl) xs m)" for m
      using less.hyps [OF len] less.prems sub le by auto
    have "NUL \<notin> set x" using less.prems sub by blast
    then have cs: "cstr (take 255 x) = take 255 x" by (rule cstr_take)
    show ?thesis
      using ih le by (auto simp: static_loop.simps [of e bl stream] fgets_line [OF Cons] cs Cons
          skip_rest_line [OF less.prems Cons] static_step_def Let_def)
  qed
qed

text \<open>
  C25: For a list of early modules without NUL bytes the \<open>fgets\<close> loop ends and probes
  one module per line, the text before the first space, however long the lines are; only the first
  255 bytes of a line count.
\<close>

theorem kmod_static_lines:
  assumes "NUL \<notin> set content"
  shows "static_loop e bl content l = Some (fold (static_step e bl) (getlines content) l)"
  using assms by (rule static_loop_lines)

section \<open>A concrete system\<close>

text \<open>Module \<open>bad\<close> fails to load, \<open>gone\<close> has no device, \<open>live\<close> is there already.\<close>

definition km_demo :: km_env where
  "km_demo =
     \<lparr>km_proc_modules = 0, km_new = True, km_cmdline = Some ''quiet modules_load=fuse\<newline>'',
      km_lookup = (\<lambda>l m. (0, if m = ''all'' then [''live'', ''bad'', ''gone'', ''fuse''] else [m])),
      km_initstate = (\<lambda>l m. if m = ''live'' then KMOD_MODULE_LIVE else KMOD_MODULE_ERROR),
      km_probe = (\<lambda>l m. if m = ''bad'' then - EINVAL else if m = ''gone'' then - ENODEV else 0),
      km_blacklisted = 0x20000,
      km_file = (\<lambda>f. if f = ''/etc/modules-load.d/a.conf'' then Some ''# net\<newline>tun \<newline>  loop\<newline>'' else None),
      km_dirs = (\<lambda>d. if d = ''/etc/modules-load.d'' then Some [\<lparr>d_name = ''a.conf'', d_type = S_REG, d_target = Some S_REG\<rparr>]
                   else None),
      km_open_modules = 0, km_uname = Some ''6.1'', km_open_kernel = (\<lambda>r. 0), km_open_devname = (\<lambda>r. 0),
      km_devname = (\<lambda>r. Some ''# comment\<newline>fuse fuse c10:229\<newline>'')\<rparr>"

theorem kmod_load_result_witness:
  "mod_load km_demo {} ''all'' [] = (- EINVAL, [''bad'', ''gone'', ''fuse''])"
  using kmod_load_result [of km_demo "[]" "''all''" "[''live'', ''bad'', ''gone'', ''fuse'']" "{}"]
  by (simp add: km_demo_def benign_def)

theorem kmod_static_lines_witness:
  "static_loop km_demo {} ''# comment\<newline>fuse fuse c10:229\<newline>'' [] = Some [''fuse'']"
proof -
  have "fold (static_step km_demo {}) (getlines ''# comment\<newline>fuse fuse c10:229\<newline>'') [] = [''fuse'']" by code_simp
  then show ?thesis using kmod_static_lines [of "''# comment\<newline>fuse fuse c10:229\<newline>''" km_demo "{}" "[]"] by simp
qed

text \<open>
  The leading space of a line in a configuration file becomes part of the module name.
\<close>

lemma kmod_leading_space:
  "kmod_main km_demo [''modules''] = Some (0, [''fuse'', ''tun'', ''  loop''])"
proof -
  have "parse_cmdline (km_cmdline km_demo) = ([''fuse''], {})"
    by (simp add: parse_cmdline_params km_demo_def Let_def params_def cstr_def add_param_def value_words_def strcspn_def strneq_def)
  moreover have "do_modules km_demo [''fuse''] {} = (0, [''fuse'', ''tun'', ''  loop''])" by code_simp
  moreover have "km_proc_modules km_demo = 0" "km_new km_demo" by (simp_all add: km_demo_def)
  ultimately show ?thesis by (simp add: kmod_main_def)
qed

end
