(* ===== verification/Binfmt.thy ===== *)
theory Binfmt
  imports ConfDir
begin

text \<open>
  The binfmt_misc loader, \<^verbatim>\<open>src/early/helpers/binfmt.cc\<close>: checking the file system, registering a
  rule, the configuration files, printing them, and \<open>main\<close>.

  The trace holds the writes below \<open>/proc/sys/fs/binfmt_misc\<close>; \<open>bf_poke\<close> is the error number of
  \<open>poke_bfmt\<close> (0 for success; a short write counts as failure and leaves the error number that
  was there). The line buffer is followed by the NUL \<open>getline\<close> puts there. What \<open>print_conf\<close>
  prints is part of the state.
\<close>

section \<open>State and environment\<close>

record bf_state =
  bf_log :: "(string \<times> string) list"
  bf_out :: string

record bf_env =
  bf_open_fs :: bool
  bf_magic_ok :: bool
  bf_writable :: bool
  bf_poke :: "(string \<times> string) list \<Rightarrow> string \<Rightarrow> string \<Rightarrow> int"
  bf_file :: "string \<Rightarrow> string option"
  bf_dirs :: "string \<Rightarrow> dirent list option"

definition binfmt_paths :: "string list" where
  "binfmt_paths = [''/etc/binfmt.d'', ''/run/binfmt.d'', ''/usr/local/lib/binfmt.d'', ''/usr/lib/binfmt.d'']"

text \<open>False is the exit with status 1.\<close>

definition binfmt_check_mounted :: "bf_env \<Rightarrow> bool \<Rightarrow> bool" where
  "binfmt_check_mounted e print_only = (print_only \<or> (bf_open_fs e \<and> bf_magic_ok e \<and> bf_writable e))"

definition poke_bfmt :: "bf_env \<Rightarrow> string \<Rightarrow> string \<Rightarrow> bf_state \<Rightarrow> int \<times> bf_state" where
  "poke_bfmt e path out st = (bf_poke e (bf_log st) path out, st\<lparr>bf_log := bf_log st @ [(path, out)]\<rparr>)"

section \<open>Rules\<close>

text \<open>
  \<open>buf\<close> is the buffer from the start of the rule on; \<open>rlen\<close> bytes of it are written. The
  delimiter is the first byte of the rule.
\<close>

definition load_rule :: "bf_env \<Rightarrow> string \<Rightarrow> nat \<Rightarrow> bf_state \<Rightarrow> bool \<times> bf_state" where
  "load_rule e buf rlen st =
     (let rule = cstr buf;
          rulename = tl rule;
          rulelen = strcspn rulename [hd rule]
      in if rulelen = 0 then (False, st)
         else if strneq rulename ''register'' rulelen \<or> strneq rulename ''status'' rulelen
             \<or> strneq rulename ''..'' rulelen \<or> strneq rulename ''.'' rulelen
             \<or> CHR ''/'' \<in> set (take rulelen rulename)
         then (False, st)
         else
           let (err, st) = poke_bfmt e (take rulelen rulename) ''-1'' st
           in if err \<noteq> 0 \<and> err \<noteq> ENOENT then (False, st)
              else
                let buf = buf[rulelen + 1 := hd rule];
                    (err, st) = poke_bfmt e ''register'' (take rlen buf) st
                in (err = 0, st))"

section \<open>Configuration files\<close>

text \<open>
  One line of \<open>load_conf\<close>: \<open>l\<close> is the line as read. The length passed on is that of the line
  less the space that is skipped at the front and cut off at the end.
\<close>

definition binfmt_line :: "bf_env \<Rightarrow> string \<Rightarrow> bf_state \<Rightarrow> bool \<times> bf_state" where
  "binfmt_line e l st =
     (let line = cstr l;
          cline = lstrip line;
          lead = length line - length cline
      in if cline = [] \<or> hd cline = CHR ''#'' \<or> hd cline = CHR '';'' then (True, st)
         else
           let stripped = rstrip line;
               cut = length line - length stripped;
               buf = stripped @ replicate cut NUL @ drop (length line) l @ [NUL]
           in load_rule e (drop lead buf) (length l - lead - cut) st)"

definition binfmt_load_conf :: "bf_env \<Rightarrow> string \<Rightarrow> bf_state \<Rightarrow> bool \<times> bf_state" where
  "binfmt_load_conf e s st =
     (case bf_file e s of
        None \<Rightarrow> (False, st)
      | Some content \<Rightarrow>
          fold (\<lambda>l (fret, st). case binfmt_line e l st of (ok, st) \<Rightarrow> (fret \<and> ok, st)) (getlines content) (True, st))"

definition print_conf :: "bf_env \<Rightarrow> string \<Rightarrow> bf_state \<Rightarrow> bool \<times> bf_state" where
  "print_conf e s st =
     (case bf_file e s of
        None \<Rightarrow> (False, st\<lparr>bf_out := bf_out st @ ''# '' @ [CHR 0x27] @ s @ [CHR 0x27] @ '' could not be loaded\<newline>''\<rparr>)
      | Some content \<Rightarrow>
          (True, st\<lparr>bf_out := bf_out st @ ''# '' @ s @ [NL] @
             concat (map (\<lambda>l. cstr l @ (if last l \<noteq> NL then [NL] else [])) (getlines content))\<rparr>))"

definition process_conf :: "bf_env \<Rightarrow> bool \<Rightarrow> string \<Rightarrow> bf_state \<Rightarrow> bool \<times> bf_state" where
  "process_conf e only_print s st = (if only_print then print_conf e s st else binfmt_load_conf e s st)"

section \<open>The program\<close>

text \<open>
  What \<open>getopt\<close> delivers: the options in order, and whether arguments are left over. With \<open>-p\<close> the
  file system is not opened, so that \<open>-p -u\<close> fails with a bad file descriptor.
\<close>

fun parse_opts :: "string \<Rightarrow> bool \<Rightarrow> bool \<Rightarrow> nat + bool \<times> bool" where
  "parse_opts [] p u = Inr (p, u)"
| "parse_opts (c # cs) p u =
     (if c = CHR ''h'' then Inl 0
      else if c = CHR ''p'' then parse_opts cs True u
      else if c = CHR ''u'' then parse_opts cs p True
      else Inl 1)"

definition binfmt_accept :: "dirent \<Rightarrow> bool" where
  "binfmt_accept dp \<longleftrightarrow> d_type dp = S_REG"

definition binfmt_scan :: "bf_env \<Rightarrow> got_map" where
  "binfmt_scan e = scan_paths binfmt_accept (bf_dirs e) binfmt_paths []"

definition binfmt_main :: "bf_env \<Rightarrow> string \<Rightarrow> bool \<Rightarrow> nat \<times> bf_state" where
  "binfmt_main e opts extra =
     (let st = \<lparr>bf_log = [], bf_out = []\<rparr>
      in case parse_opts opts False False of
           Inl status \<Rightarrow> (status, st)
         | Inr (arg_p, arg_u) \<Rightarrow>
             if extra then (1, st)
             else if \<not> binfmt_check_mounted e arg_p then (1, st)
             else if arg_u then
               if arg_p then (1, st) else
               (case poke_bfmt e ''status'' ''-1'' st of (err, st) \<Rightarrow> (if err = 0 then 0 else 1, st))
             else
               (case process_all (process_conf e arg_p) (binfmt_scan e) st of (ok, st) \<Rightarrow>
                  (if ok then 0 else 1, st)))"

section \<open>Which files are written\<close>

text \<open>A rule name that can be written to, and the pokes the program may make.\<close>

definition rule_name_ok :: "string \<Rightarrow> bool" where
  "rule_name_ok n \<longleftrightarrow> n \<noteq> [] \<and> CHR ''/'' \<notin> set n \<and> n \<notin> {''register'', ''status'', ''.'', ''..''}"

definition poke_ok :: "string \<times> string \<Rightarrow> bool" where
  "poke_ok c \<longleftrightarrow> fst c = ''register'' \<or> rule_name_ok (fst c) \<and> snd c = ''-1''"

lemma strneq_take: "n \<le> length s \<Longrightarrow> strneq s (take n s) n"
  by (simp add: strneq_def)

lemma not_strneq_take: "\<not> strneq s lit n \<Longrightarrow> take n s \<noteq> lit"
  by (auto simp: strneq_def take_all_iff)

lemma load_rule_pokes: "load_rule e buf rlen st = (ok, st') \<Longrightarrow> adds poke_ok (bf_log st) (bf_log st')"
proof -
  assume a: "load_rule e buf rlen st = (ok, st')"
  let ?n = "strcspn (tl (cstr buf)) [hd (cstr buf)]"
  have "?n \<le> length (tl (cstr buf))" by (rule strcspn_le)
  then show ?thesis
    using a unfolding load_rule_def
    by (auto simp: Let_def poke_bfmt_def poke_ok_def rule_name_ok_def dest: not_strneq_take split: if_splits)
qed

lemma binfmt_line_pokes: "binfmt_line e l st = (ok, st') \<Longrightarrow> adds poke_ok (bf_log st) (bf_log st')"
  by (auto simp: binfmt_line_def Let_def split: if_splits dest: load_rule_pokes)

lemma binfmt_load_conf_pokes: "binfmt_load_conf e s st = (ok, st') \<Longrightarrow> adds poke_ok (bf_log st) (bf_log st')"
proof -
  have "adds poke_ok (bf_log st) (bf_log (snd (fold (\<lambda>l (fret, st). case binfmt_line e l st of (ok, st) \<Rightarrow> (fret \<and> ok, st))
      ls (b, st))))" for ls b
  proof (induction ls arbitrary: b st)
    case (Cons l ls)
    obtain ok st1 where l: "binfmt_line e l st = (ok, st1)" by (cases "binfmt_line e l st")
    from binfmt_line_pokes [OF l] Cons.IH [of st1 "b \<and> ok"] l show ?case by (auto intro: adds_trans)
  qed simp
  then show "binfmt_load_conf e s st = (ok, st') \<Longrightarrow> adds poke_ok (bf_log st) (bf_log st')"
    by (auto simp: binfmt_load_conf_def split: option.splits) (metis snd_conv)
qed

interpretation binfmt: conf_loader "process_conf e p" "\<lambda>s t. adds (\<lambda>c. \<not> p \<and> poke_ok c) (bf_log s) (bf_log t)" for e p
proof unfold_locales
  show "process_conf e p f s = (ok, t) \<Longrightarrow> adds (\<lambda>c. \<not> p \<and> poke_ok c) (bf_log s) (bf_log t)" for f s ok t
    by (cases p) (auto simp: process_conf_def print_conf_def split: option.splits dest: binfmt_load_conf_pokes)
qed (auto intro: adds_trans)

text \<open>
  C18: Whatever the configuration files contain, the program writes only \<open>-1\<close> to
  \<open>status\<close> (and nothing else) when it is told to unregister, and otherwise rules to
  \<open>register\<close> and \<open>-1\<close> to the entry of a rule, whose name is not empty,
  has no slash and is none of \<open>register\<close>, \<open>status\<close>, \<open>.\<close> and
  \<open>..\<close>; printing the configuration writes nothing at all.
\<close>

theorem binfmt_pokes:
  assumes "binfmt_main e opts extra = (status, st)" and "(path, out) \<in> set (bf_log st)"
  shows "CHR ''p'' \<notin> set opts \<and>
    (if CHR ''u'' \<in> set opts then (path, out) = (''status'', ''-1'')
     else path = ''register'' \<or> rule_name_ok path \<and> out = ''-1'')"
proof -
  have opts: "parse_opts cs p u = Inr (p', u') \<Longrightarrow> p' = (p \<or> CHR ''p'' \<in> set cs) \<and> u' = (u \<or> CHR ''u'' \<in> set cs)"
    for cs p u p' u' by (induction cs arbitrary: p u) (auto split: if_splits)
  obtain p u where o: "parse_opts opts False False = Inr (p, u)"
    using assms by (auto simp: binfmt_main_def Let_def split: sum.splits)
  have all: "\<not> p \<and> poke_ok c"
    if "process_all (process_conf e p) (binfmt_scan e) \<lparr>bf_log = [], bf_out = []\<rparr> = (ok, t)" "c \<in> set (bf_log t)" for ok t c
    using binfmt.process_all_step [OF that(1) [unfolded binfmt_scan_def]] that(2)
    by (auto simp: adds_def list_all_iff)
  obtain ok t where t: "process_all (process_conf e p) (binfmt_scan e) \<lparr>bf_log = [], bf_out = []\<rparr> = (ok, t)" by fastforce
  have "bf_log st = [] \<or> u \<and> \<not> p \<and> bf_log st = [(''status'', ''-1'')] \<or> \<not> u \<and> st = t"
    using assms(1) unfolding binfmt_main_def Let_def o by (simp add: t poke_bfmt_def split: if_splits) auto
  then show ?thesis
    using assms(2) opts [OF o] all [OF t, of "(path, out)"] by (auto simp: poke_ok_def)
qed

section \<open>Registering a rule\<close>

text \<open>The name of a rule, between its delimiters, and the test the program makes of it.\<close>

definition name_accepted :: "string \<Rightarrow> bool" where
  "name_accepted n \<longleftrightarrow>
     n \<noteq> [] \<and> \<not> prefix n ''register'' \<and> \<not> prefix n ''status'' \<and> \<not> prefix n ''..'' \<and> CHR ''/'' \<notin> set n"

lemma strneq_prefix: "strneq (n @ r) lit (length n) \<longleftrightarrow> prefix n lit"
  by (auto simp: strneq_def prefix_def) (metis append_take_drop_id)

lemma load_rule_accepted:
  assumes "d \<notin> set name" "name_accepted name" "NUL \<notin> set (d # name @ d # rest)"
  shows "load_rule e ((d # name @ d # rest) @ NUL # t) (length name + length rest + 2) st =
    (let l = bf_log st; err = bf_poke e l name ''-1''; l1 = l @ [(name, ''-1'')]
     in if err \<notin> {0, ENOENT} then (False, st\<lparr>bf_log := l1\<rparr>)
        else (bf_poke e l1 ''register'' (d # name @ d # rest) = 0,
              st\<lparr>bf_log := l1 @ [(''register'', d # name @ d # rest)]\<rparr>))"
proof -
  let ?rule = "d # name @ d # rest"
  have c: "cstr (?rule @ NUL # t) = ?rule" using assms(3) by (auto simp: cstr_def takeWhile_append)
  have n: "strcspn (name @ d # rest) [d] = length name" using assms(1) by (induction name) (auto simp: strcspn_Cons)
  have "(?rule @ NUL # t)[length name + 1 := d] = ?rule @ NUL # t" by (simp add: list_update_append)
  moreover have "take (length name + length rest + 2) (?rule @ NUL # t) = ?rule" by simp
  moreover have "\<not> prefix name ''.''"
    using assms(2) prefix_order.trans [of name "''.''" "''..''"] by (auto simp: name_accepted_def)
  ultimately show ?thesis
    using assms(2) unfolding load_rule_def c
    by (simp add: Let_def n strneq_prefix name_accepted_def poke_bfmt_def)
qed

text \<open>
  A line with a rule, with any white space around it, first removes the old rule of that name,
  and unless that fails for another reason than that there is none, registers exactly the text of
  the rule; the result is the result of the registration.
\<close>

lemma binfmt_rule_registered:
  assumes bl: "blank a" "blank b" and tr: "trimmed (d # name @ d # rest)"
    and d: "d \<notin> set name" "d \<notin> {CHR ''#'', CHR '';''}" and ok: "name_accepted name"
    and nul: "NUL \<notin> set (d # name @ d # rest)"
  shows "binfmt_line e (a @ (d # name @ d # rest) @ b) st =
    (let l = bf_log st; err = bf_poke e l name ''-1''; l1 = l @ [(name, ''-1'')]
     in if err \<notin> {0, ENOENT} then (False, st\<lparr>bf_log := l1\<rparr>)
        else (bf_poke e l1 ''register'' (d # name @ d # rest) = 0,
              st\<lparr>bf_log := l1 @ [(''register'', d # name @ d # rest)]\<rparr>))"
proof -
  let ?rule = "d # name @ d # rest"
  let ?l = "a @ ?rule @ b"
  have cs: "cstr ?l = ?l" using bl [THEN blank_nul] nul by (intro cstr_id) auto
  have ls: "lstrip ?l = ?rule @ b" using lstrip_blank [OF bl(1), of "?rule @ b"] lstrip_trimmed [OF tr, of b] by simp
  have rs: "rstrip ?l = a @ ?rule"
    using rstrip_blank [OF bl(2), of "a @ ?rule"] rstrip_trimmed [OF tr, of a] by simp
  have tail: "replicate (length b) NUL @ [NUL] = NUL # replicate (length b) NUL" by (simp add: replicate_append_same)
  have "binfmt_line e ?l st = load_rule e (?rule @ NUL # replicate (length b) NUL) (length name + length rest + 2) st"
    using d(2) tail unfolding binfmt_line_def cs ls rs Let_def by simp
  then show ?thesis using load_rule_accepted [OF d(1) ok nul] by simp
qed

text \<open>
  A rule is rejected when its name is a proper prefix of a reserved name, such as
  \<open>reg\<close>.
\<close>

lemma binfmt_prefix_names:
  "binfmt_line e '':reg:M::MZ::/usr/bin/wine:\<newline>'' st = (False, st)"
  by (simp add: binfmt_line_def cstr_def lstrip_def rstrip_def isspace_def load_rule_def strcspn_def strneq_def)

section \<open>A concrete system\<close>

definition bf_demo :: bf_env where
  "bf_demo =
     \<lparr>bf_open_fs = True, bf_magic_ok = True, bf_writable = True,
      bf_poke = (\<lambda>l p v. if p = ''register'' then 0 else ENOENT),
      bf_file = (\<lambda>f. if f = ''/usr/lib/binfmt.d/wine.conf'' then Some ''# wine\<newline> :wine:M::MZ::/usr/bin/wine:\<newline>'' else None),
      bf_dirs = (\<lambda>d. if d = ''/usr/lib/binfmt.d'' then Some [\<lparr>d_name = ''wine.conf'', d_type = S_REG, d_target = Some S_REG\<rparr>]
                   else None)\<rparr>"

lemma bf_demo_run:
  "binfmt_main bf_demo [] False =
    (0, \<lparr>bf_log = [(''wine'', ''-1''), (''register'', '':wine:M::MZ::/usr/bin/wine:'')], bf_out = []\<rparr>)"
  by code_simp

theorem binfmt_pokes_witness: "rule_name_ok ''wine'' \<and> CHR ''p'' \<notin> set ([] :: string)"
  using binfmt_pokes [OF bf_demo_run, of "''wine''" "''-1''"] by simp

theorem binfmt_rule_registered_witness:
  "binfmt_line bf_demo '' :wine:M::MZ::/usr/bin/wine:\<newline>'' \<lparr>bf_log = [], bf_out = []\<rparr> =
    (True, \<lparr>bf_log = [(''wine'', ''-1''), (''register'', '':wine:M::MZ::/usr/bin/wine:'')], bf_out = []\<rparr>)"
  using binfmt_rule_registered [of "'' ''" "''\<newline>''" "CHR '':''" "''wine''" "''M::MZ::/usr/bin/wine:''" bf_demo
      "\<lparr>bf_log = [], bf_out = []\<rparr>"]
  by (simp add: blank_def trimmed_def isspace_def name_accepted_def bf_demo_def)

end
