(* ===== verification/Clock.thy ===== *)
theory Clock
  imports Prelude
begin

text \<open>
  The two clock helpers. \<^verbatim>\<open>src/early/helpers/clock_common.hh\<close>: guessing from \<open>/etc/adjtime\<close> whether
  the real time clock runs in UTC. \<^verbatim>\<open>src/early/helpers/swclock.cc\<close>: keeping the system time close to
  reality on machines without a usable clock, by a time stamp file and, where the clock cannot
  be written, an offset file. \<^verbatim>\<open>src/early/helpers/hwclock.cc\<close>: the kernel's time zone and writing the
  real time clock.

  Times are seconds, \<open>time_t\<close> values as \<open>int\<close> and \<open>unsigned long long\<close> values as \<open>nat\<close> below
  \<open>2^64\<close>. The exit of \<open>err (1, ...)\<close> is the status 1.
\<close>

section \<open>The mode of the real time clock\<close>

datatype rtc_mod = RTC_MOD_UTC | RTC_MOD_LOCALTIME

function rtc_mod_loop :: "string \<Rightarrow> rtc_mod" where
  "rtc_mod_loop stream =
     (case fgets 256 stream of
        None \<Rightarrow> RTC_MOD_UTC
      | Some (buf, rest) \<Rightarrow>
          if strneq (cstr buf) ''LOCAL'' 5 then RTC_MOD_LOCALTIME
          else if strneq (cstr buf) ''UTC'' 3 then RTC_MOD_UTC
          else rtc_mod_loop rest)"
  by pat_completeness auto
termination
  by (relation "measure length") (auto dest: fgets_length)

declare rtc_mod_loop.simps [simp del]

definition rtc_mod_guess :: "string option \<Rightarrow> rtc_mod" where
  "rtc_mod_guess adjtime = (case adjtime of None \<Rightarrow> RTC_MOD_UTC | Some content \<Rightarrow> rtc_mod_loop content)"

section \<open>The software clock\<close>

datatype sw_call =
    SwMkdir
  | SwFlock
  | SwUnlinkOffset
  | SwCreateOffset
  | SwWriteOffset string
  | SwCreateStamp
  | SwFutimens int
  | SwSettime int

text \<open>
  \<open>sw_sys\<close> is 0 or an error number. \<open>sw_rtc\<close> and \<open>sw_offset\<close> are the contents of the node
  \<open>since_epoch\<close> and of the offset file, \<open>None\<close> when they cannot be opened. \<open>sw_mktime\<close> is
  \<open>mktime (gmtime t)\<close>, \<open>None\<close> when \<open>gmtime\<close> fails. \<open>sw_time32\<close> says that \<open>time_t\<close> has 32 bits.
\<close>

record sw_env =
  sw_uid :: nat
  sw_now :: "int option"
  sw_adjtime :: "string option"
  sw_opendir :: bool
  sw_sys :: "sw_call list \<Rightarrow> sw_call \<Rightarrow> int"
  sw_rtc :: "string option"
  sw_offset :: "string option"
  sw_fdopen :: bool
  sw_stat :: "fstat option"
  sw_mktime :: "int \<Rightarrow> int option"
  sw_time32 :: bool

abbreviation (input) INT32_MAX :: nat where "INT32_MAX \<equiv> 0x7FFFFFFF"

text \<open>The conversions between \<open>unsigned long long\<close> and a \<open>time_t\<close> of 64 bits.\<close>

definition to_time_t :: "nat \<Rightarrow> int" where
  "to_time_t n = (if n < 2 ^ 63 then int n else int n - 2 ^ 64)"

definition of_time_t :: "int \<Rightarrow> nat" where
  "of_time_t t = nat (t mod 2 ^ 64)"

definition stat_reg :: "fstat option \<Rightarrow> fstat option" where
  "stat_reg st = (case st of None \<Rightarrow> None | Some s \<Rightarrow> if st_kind s = S_REG then Some s else None)"

definition convert_localtime :: "sw_env \<Rightarrow> rtc_mod \<Rightarrow> nat \<Rightarrow> nat option" where
  "convert_localtime e rmod rtc_epoch =
     (if rmod \<noteq> RTC_MOD_LOCALTIME then Some rtc_epoch
      else if sw_time32 e \<and> rtc_epoch > INT32_MAX then None
      else case sw_mktime e (to_time_t rtc_epoch) of
             None \<Rightarrow> None
           | Some t \<Rightarrow> if t < 0 then None else Some (of_time_t t))"

text \<open>
  A number as \<open>fgets\<close> reads it into a buffer of 32 bytes and \<open>strtoull\<close> converts it: zero and
  anything but a newline after the digits are junk.
\<close>

definition read_number :: "string option \<Rightarrow> nat option" where
  "read_number content =
     (case Option.bind content (fgets 32) of
        None \<Rightarrow> None
      | Some (buf, _) \<Rightarrow>
          case strtoull (cstr buf) of (v, errp) \<Rightarrow>
            if v = 0 \<or> (errp \<noteq> [] \<and> hd errp \<noteq> NL) then None else Some v)"

text \<open>
  The first part of \<open>do_start\<close>: the time from the clock and the offset, or \<open>None\<close> for the jump to
  \<open>regular_set\<close>. The files are read before either number is converted.
\<close>

definition offset_time :: "sw_env \<Rightarrow> int \<Rightarrow> rtc_mod \<Rightarrow> int option" where
  "offset_time e curt rmod =
     (if Option.bind (sw_rtc e) (fgets 32) = None \<or> Option.bind (sw_offset e) (fgets 32) = None then None
      else do {
        rtc_epoch \<leftarrow> read_number (sw_rtc e);
        rtc_epoch \<leftarrow> convert_localtime e rmod rtc_epoch;
        ofs \<leftarrow> read_number (sw_offset e);
        let rtc_epoch = (rtc_epoch + ofs) mod 2 ^ 64;
        if sw_time32 e \<and> rtc_epoch > INT32_MAX then None
        else if to_time_t rtc_epoch < curt then None
        else Some (to_time_t rtc_epoch)
      })"

definition do_set :: "sw_env \<Rightarrow> sw_call list \<Rightarrow> int \<Rightarrow> nat \<times> sw_call list" where
  "do_set e l t = (if sw_sys e l (SwSettime t) \<noteq> 0 then 1 else 0, l @ [SwSettime t])"

definition swclock_do_start :: "sw_env \<Rightarrow> sw_call list \<Rightarrow> int \<Rightarrow> rtc_mod \<Rightarrow> nat \<times> sw_call list" where
  "swclock_do_start e l curt rmod =
     (if sw_offset e \<noteq> None \<and> sw_rtc e \<noteq> None \<and> \<not> sw_fdopen e then (1, l)
      else
        case offset_time e curt rmod of
          Some t \<Rightarrow> do_set e l t
        | None \<Rightarrow>
            case stat_reg (sw_stat e) of
              None \<Rightarrow> (0, l)
            | Some st \<Rightarrow> if st_atime st < curt then (0, l) else do_set e l (st_atime st))"

text \<open>The part of \<open>do_stop\<close> from \<open>regular_save\<close> on.\<close>

definition regular_save :: "sw_env \<Rightarrow> sw_call list \<Rightarrow> int \<Rightarrow> nat \<times> sw_call list" where
  "regular_save e l curt =
     (if sw_sys e l SwCreateStamp \<noteq> 0 then (1, l @ [SwCreateStamp])
      else
        let l = l @ [SwCreateStamp]
        in (if sw_sys e l (SwFutimens curt) \<noteq> 0 then 1 else 0, l @ [SwFutimens curt]))"

definition swclock_do_stop :: "sw_env \<Rightarrow> sw_call list \<Rightarrow> int \<Rightarrow> rtc_mod \<Rightarrow> nat \<times> sw_call list" where
  "swclock_do_stop e l curt rmod =
     (let l = l @ [SwUnlinkOffset]
      in case Option.bind (read_number (sw_rtc e)) (convert_localtime e rmod) of
           None \<Rightarrow> regular_save e l curt
         | Some epoch \<Rightarrow>
             if of_time_t curt \<le> epoch then regular_save e l curt
             else if sw_sys e l SwCreateOffset \<noteq> 0 then (1, l @ [SwCreateOffset])
             else if \<not> sw_fdopen e then (1, l @ [SwCreateOffset])
             else regular_save e (l @ [SwCreateOffset, SwWriteOffset (show_nat (of_time_t curt - epoch))]) curt)"

text \<open>The argument that names the mode, shared by both programs; \<open>None\<close> is the usage error.\<close>

definition mode_arg :: "string option \<Rightarrow> string list \<Rightarrow> rtc_mod option" where
  "mode_arg adjtime args =
     (case args of
        [] \<Rightarrow> Some (rtc_mod_guess adjtime)
      | m # _ \<Rightarrow> if m = ''utc'' then Some RTC_MOD_UTC else if m = ''localtime'' then Some RTC_MOD_LOCALTIME else None)"

definition swclock_main :: "sw_env \<Rightarrow> string list \<Rightarrow> nat \<times> sw_call list" where
  "swclock_main e args =
     (if args = [] \<or> length args > 2 \<or> sw_uid e \<noteq> 0 then (1, [])
      else case mode_arg (sw_adjtime e) (tl args) of
        None \<Rightarrow> (1, [])
      | Some rmod \<Rightarrow>
          case sw_now e of
            None \<Rightarrow> (1, [])
          | Some curt \<Rightarrow>
              if sw_sys e [] SwMkdir \<noteq> 0 \<and> sw_sys e [] SwMkdir \<noteq> EEXIST then (1, [SwMkdir])
              else if \<not> sw_opendir e then (1, [SwMkdir])
              else if sw_sys e [SwMkdir] SwFlock \<noteq> 0 then (1, [SwMkdir, SwFlock])
              else if hd args = ''start'' then swclock_do_start e [SwMkdir, SwFlock] curt rmod
              else if hd args = ''stop'' then swclock_do_stop e [SwMkdir, SwFlock] curt rmod
              else (1, [SwMkdir, SwFlock]))"

section \<open>The hardware clock\<close>

text \<open>
  \<open>HwSetTz m\<close> sets the kernel's time zone to \<open>m\<close> minutes west of UTC; \<open>HwOpen\<close> opens a device,
  where \<open>None\<close> is the null pointer; \<open>HwSetTime utc\<close> writes the clock from the broken-down UTC or
  local time.
\<close>

datatype hw_call = HwSetTz int | HwOpen "string option" | HwSetTime bool

record hw_env =
  hw_sys :: "hw_call list \<Rightarrow> hw_call \<Rightarrow> int"
  hw_gmtoff :: int
  hw_now :: bool
  hw_adjtime :: "string option"

text \<open>Division of C, which rounds towards zero.\<close>

definition cdiv :: "int \<Rightarrow> int \<Rightarrow> int" where
  "cdiv a b = sgn a * sgn b * (\<bar>a\<bar> div \<bar>b\<bar>)"

definition do_settimeofday :: "hw_env \<Rightarrow> hw_call list \<Rightarrow> int \<Rightarrow> nat \<times> hw_call list" where
  "do_settimeofday e l m = (if hw_sys e l (HwSetTz m) \<noteq> 0 then 1 else 0, l @ [HwSetTz m])"

definition hwclock_do_start :: "hw_env \<Rightarrow> rtc_mod \<Rightarrow> nat \<times> hw_call list" where
  "hwclock_do_start e rmod =
     (let (ret, l) = (if rmod = RTC_MOD_UTC then do_settimeofday e [] 0 else (0, []))
      in if ret \<noteq> 0 then (ret, l)
         else
           let minuteswest = cdiv (- hw_gmtoff e) 60
           in if rmod \<noteq> RTC_MOD_UTC \<or> minuteswest \<noteq> 0 then do_settimeofday e l minuteswest else (ret, l))"

text \<open>Opening a device again while it is busy: the error number of the last attempt.\<close>

fun open_retry :: "hw_env \<Rightarrow> string option \<Rightarrow> nat \<Rightarrow> hw_call list \<Rightarrow> int \<times> hw_call list" where
  "open_retry e path attempts l =
     (let err = hw_sys e l (HwOpen path); l = l @ [HwOpen path]
      in if err = EBUSY then
           (case attempts of 0 \<Rightarrow> (err, l) | Suc attempts \<Rightarrow> open_retry e path attempts l)
         else (err, l))"

text \<open>
  The loop \<open>while (*crtc++)\<close>: the element that is tested is not the one that is opened. \<open>rtcs\<close> is
  the array from \<open>crtc\<close> on, with its null pointer at the end. The result is 0 for an open
  device, or the error number of the last attempt to open one.
\<close>

fun open_rtc :: "hw_env \<Rightarrow> string option list \<Rightarrow> int \<Rightarrow> hw_call list \<Rightarrow> int \<times> hw_call list" where
  "open_rtc e (Some _ # crtc # rtcs) err l =
     (case open_retry e crtc 8 l of (err, l) \<Rightarrow>
        if err = 0 \<or> err = EBUSY then (err, l) else open_rtc e (crtc # rtcs) err l)"
| "open_rtc e rtcs err l = (err, l)"

definition hwclock_do_stop :: "hw_env \<Rightarrow> rtc_mod \<Rightarrow> nat \<times> hw_call list" where
  "hwclock_do_stop e rmod =
     (case open_rtc e [Some ''/dev/rtc'', Some ''/dev/rtc0'', None] (- 1) [] of (err, l) \<Rightarrow>
        if err \<noteq> 0 then (1, l)
        else if \<not> hw_now e then (1, l)
        else let c = HwSetTime (rmod = RTC_MOD_UTC)
             in (if hw_sys e l c \<noteq> 0 then 1 else 0, l @ [c]))"

definition hwclock_main :: "hw_env \<Rightarrow> string list \<Rightarrow> nat \<times> hw_call list" where
  "hwclock_main e args =
     (if args = [] \<or> length args > 2 \<or> hd args \<notin> {''start'', ''stop''} then (1, [])
      else case mode_arg (hw_adjtime e) (tl args) of
        None \<Rightarrow> (1, [])
      | Some rmod \<Rightarrow> if hd args = ''start'' then hwclock_do_start e rmod else hwclock_do_stop e rmod)"

section \<open>Numbers in files\<close>

lemma length_show_nat: "n < 10 ^ k \<Longrightarrow> 0 < k \<Longrightarrow> length (show_nat n) \<le> k"
proof (induction k arbitrary: n)
  case (Suc k)
  show ?case
  proof (cases "n < 10")
    case True
    then show ?thesis by (simp add: show_nat.simps)
  next
    case False
    with Suc.prems have k: "0 < k" by (cases k) auto
    from Suc.prems have "n div 10 < 10 ^ k" by (simp add: less_mult_imp_div_less)
    with Suc.IH [OF this k] False show ?thesis by (simp add: show_nat.simps [of n])
  qed
qed simp

lemma show_nat_chars: "NL \<notin> set (show_nat n)" "NUL \<notin> set (show_nat n)"
  using show_nat_digits [of NL n] show_nat_digits [of NUL n] by (auto simp: isdigit_code)

lemma fgets_go_newline: "NL \<notin> set s \<Longrightarrow> length s < n \<Longrightarrow> fgets_go n (s @ NL # r) = (s @ [NL], r)"
proof (induction s arbitrary: n)
  case Nil
  then show ?case by (cases n) auto
next
  case (Cons c s)
  then show ?case by (cases n) auto
qed

lemma show_nat_fits: "n < 2 ^ 64 \<Longrightarrow> length (show_nat n) \<le> 20"
  by (rule length_show_nat) simp_all

lemma read_number_line:
  "n < 2 ^ 64 \<Longrightarrow> read_number (Some (show_nat n @ [NL])) = (if n = 0 then None else Some n)"
  using fgets_go_newline [of "show_nat n" 31 "[]"] show_nat_fits [of n] show_nat_chars [of n]
    strtoull_show_nat [of n "[NL]"]
  by (simp add: read_number_def fgets_def isdigit_code)

lemma read_number_text: "0 < n \<Longrightarrow> n < 2 ^ 64 \<Longrightarrow> read_number (Some (show_nat n)) = Some n"
  using fgets_go_whole [of "show_nat n" 31] show_nat_fits [of n] show_nat_chars [of n] strtoull_show_nat [of n "[]"]
  by (simp add: read_number_def fgets_def)

lemma read_number_pos: "read_number c = Some n \<Longrightarrow> 0 < n"
  by (auto simp: read_number_def split: option.splits prod.splits if_splits)

section \<open>The software clock\<close>

lemma do_set_log: "do_set e l t = (r, l') \<Longrightarrow> l' = l @ [SwSettime t]"
  by (auto simp: do_set_def)

lemma offset_time_ge: "offset_time e curt m = Some t \<Longrightarrow> curt \<le> t"
  by (auto simp: offset_time_def Let_def split: bind_splits if_splits)

lemma swclock_start_ge:
  "swclock_do_start e l curt m = (r, l') \<Longrightarrow> adds (\<lambda>c. \<exists>t. c = SwSettime t \<and> curt \<le> t) l l'"
  by (auto simp: swclock_do_start_def split: if_splits option.splits dest!: do_set_log dest: offset_time_ge)

lemma regular_save_calls:
  "regular_save e l curt = (r, l') \<Longrightarrow> adds (\<lambda>c. \<forall>t. c \<noteq> SwSettime t) l l'"
  by (auto simp: regular_save_def Let_def split: if_splits)

lemma swclock_stop_calls:
  "swclock_do_stop e l curt m = (r, l') \<Longrightarrow> adds (\<lambda>c. \<forall>t. c \<noteq> SwSettime t) l l'"
  by (auto simp: swclock_do_stop_def Let_def split: option.splits if_splits
      dest!: regular_save_calls elim: adds_snocD)


lemma stop_offset:
  assumes "swclock_do_stop e [] curt RTC_MOD_UTC = (0, l)" and "SwWriteOffset s \<in> set l"
  obtains r where "read_number (sw_rtc e) = Some r" "r < of_time_t curt" "s = show_nat (of_time_t curt - r)"
proof -
  have "convert_localtime e RTC_MOD_UTC = Some" by (simp add: fun_eq_iff convert_localtime_def)
  then show ?thesis using assms that
    by (auto simp: swclock_do_stop_def regular_save_def Let_def split: option.splits if_splits)
qed

lemma offset_roundtrip:
  assumes stop: "swclock_do_stop e [] curt RTC_MOD_UTC = (0, l)" "SwWriteOffset s \<in> set l"
    and rtc: "sw_rtc e = Some (show_nat r @ [NL])" "r < 2 ^ 64"
    and start: "sw_offset e' = Some s" "sw_rtc e' = Some (show_nat (r + d) @ [NL])" "sw_fdopen e'" "\<not> sw_time32 e'"
    and times: "0 \<le> curt" "curt + int d < 2 ^ 63" "curt' \<le> curt + int d"
  shows "swclock_do_start e' l' curt' RTC_MOD_UTC =
    (if sw_sys e' l' (SwSettime (curt + int d)) = 0 then 0 else 1, l' @ [SwSettime (curt + int d)])"
proof -
  obtain r' where r': "read_number (sw_rtc e) = Some r'" "r' < of_time_t curt" "s = show_nat (of_time_t curt - r')"
    using stop_offset [OF stop] by blast
  have r0: "r \<noteq> 0" "r' = r" using rtc r'(1) read_number_line [OF rtc(2)] by (auto split: if_splits)
  have c: "of_time_t curt = nat curt" using times by (simp add: of_time_t_def)
  have n: "read_number (sw_rtc e') = Some (r + d)" "read_number (sw_offset e') = Some (nat curt - r)"
    using start r' r0 c times read_number_line [of "r + d"] read_number_text [of "nat curt - r"] by auto
  have "(r + d + (nat curt - r)) mod 2 ^ 64 = nat curt + d" "nat curt + d < 2 ^ 63"
    using r' r0 c times by auto
  then have "offset_time e' curt' RTC_MOD_UTC = Some (curt + int d)"
    using n start times
    by (auto simp: offset_time_def convert_localtime_def to_time_t_def read_number_def split: option.splits)
  then show ?thesis using start by (simp add: swclock_do_start_def do_set_def)
qed


text \<open>A machine whose clock was 100 seconds behind at shutdown and is read 60 seconds later.\<close>

definition sw_demo :: "string \<Rightarrow> string option \<Rightarrow> sw_env" where
  "sw_demo rtc ofs =
     \<lparr>sw_uid = 0, sw_now = Some 50, sw_adjtime = None, sw_opendir = True, sw_sys = (\<lambda>l c. 0), sw_rtc = Some rtc,
      sw_offset = ofs, sw_fdopen = True, sw_stat = None, sw_mktime = Some, sw_time32 = False\<rparr>"

lemma sw_demo_stop:
  "swclock_do_stop (sw_demo (show_nat 900 @ [NL]) None) [] 1000 RTC_MOD_UTC =
    (0, [SwUnlinkOffset, SwCreateOffset, SwWriteOffset (show_nat 100), SwCreateStamp, SwFutimens 1000])"
  using read_number_line [of 900]
  by (simp add: swclock_do_stop_def sw_demo_def convert_localtime_def of_time_t_def regular_save_def)



section \<open>The hardware clock\<close>

lemma open_retry_trace:
  assumes "open_retry e p n l = (err, l')"
  obtains k where "k \<le> n" "l' = l @ replicate (Suc k) (HwOpen p)"
  using assms
proof (induction n arbitrary: l thesis)
  case 0
  then show ?case by (auto simp: Let_def split: if_splits intro!: 0(1) [of 0])
next
  case (Suc n)
  show ?case
  proof (cases "hw_sys e l (HwOpen p) = EBUSY")
    case True
    with Suc.prems(2) have "open_retry e p n (l @ [HwOpen p]) = (err, l')" by (simp add: Let_def)
    from Suc.IH [OF _ this] obtain k where "k \<le> n" "l' = (l @ [HwOpen p]) @ replicate (Suc k) (HwOpen p)" by blast
    then show ?thesis by (intro Suc.prems(1) [of "Suc k"]) auto
  next
    case False
    with Suc.prems show ?thesis by (auto simp: Let_def intro!: Suc.prems(1) [of 0])
  qed
qed

text \<open>
  C34: Stopping the hardware clock ends after at most nine attempts each to open
  \<open>/dev/rtc0\<close> and the null pointer that ends the list of devices, never
  \<open>/dev/rtc\<close>, and writes the clock at most once, in the time of the given mode, as
  its last call; without that call the status is 1.
\<close>

theorem hwclock_stop_trace:
  "\<exists>k j. k \<le> 8 \<and> j \<le> 9 \<and>
     hwclock_do_stop e m \<in>
       {(1, replicate (Suc k) (HwOpen (Some ''/dev/rtc0'')) @ replicate j (HwOpen None))} \<union>
       {0, 1} \<times> {replicate (Suc k) (HwOpen (Some ''/dev/rtc0'')) @ replicate j (HwOpen None) @ [HwSetTime (m = RTC_MOD_UTC)]}"
proof -
  obtain err1 l1 where 1: "open_retry e (Some ''/dev/rtc0'') 8 [] = (err1, l1)" by fastforce
  obtain k where k: "k \<le> 8" "l1 = replicate (Suc k) (HwOpen (Some ''/dev/rtc0''))"
    using open_retry_trace [OF 1] by auto
  obtain err2 l2 where 2: "open_retry e None 8 l1 = (err2, l2)" by fastforce
  obtain j where j: "j \<le> 8" "l2 = l1 @ replicate (Suc j) (HwOpen None)"
    using open_retry_trace [OF 2] by auto
  show ?thesis
  proof (cases "err1 = 0 \<or> err1 = EBUSY")
    case True
    with k 1 show ?thesis
      by (intro exI [of _ k] exI [of _ 0]) (auto simp: hwclock_do_stop_def Let_def simp del: open_retry.simps)
  next
    case False
    with k j 1 2 show ?thesis
      by (intro exI [of _ k] exI [of _ "Suc j"]) (auto simp: hwclock_do_stop_def Let_def simp del: open_retry.simps replicate.simps)
  qed
qed

end
