(* ===== verification/Lo.thy ===== *)
theory Lo
  imports Prelude
begin

unbundle bit_operations_syntax

text \<open>
  Bringing up the loopback interface, \<^verbatim>\<open>src/early/helpers/lo.cc\<close>. The exit of \<open>err (1, ...)\<close> is a
  failure with the error number it reports.
\<close>

section \<open>The program\<close>

datatype pf = PF_INET | PF_PACKET | PF_INET6

datatype lo_call = LoSetFlags u16

datatype lo_result = LoOk "lo_call list" | LoErr int "lo_call list"

text \<open>
  \<open>lo_socket\<close> is 0 or the error number of \<open>socket\<close> for a family, \<open>lo_getflags\<close> the error number or
  the flags of the interface \<open>lo\<close>, \<open>lo_setflags\<close> 0 or an error number.
\<close>

record lo_env =
  lo_socket :: "pf \<Rightarrow> int"
  lo_getflags :: "pf \<Rightarrow> int + u16"
  lo_setflags :: "pf \<Rightarrow> u16 \<Rightarrow> int"

abbreviation (input) IFF_UP :: u16 where "IFF_UP \<equiv> 1"

text \<open>The loop over the families: the first socket that can be made, or the first error.\<close>

fun lo_sock :: "lo_env \<Rightarrow> pf list \<Rightarrow> int \<Rightarrow> int + pf" where
  "lo_sock e [] serr = Inl serr"
| "lo_sock e (fam # fams) serr =
     (if lo_socket e fam = 0 then Inr fam
      else lo_sock e fams (if serr = 0 then lo_socket e fam else serr))"

definition lo_main :: "lo_env \<Rightarrow> lo_result" where
  "lo_main e =
     (case lo_sock e [PF_INET, PF_PACKET, PF_INET6] 0 of
        Inl serr \<Rightarrow> LoErr serr []
      | Inr fd \<Rightarrow>
          case lo_getflags e fd of
            Inl err \<Rightarrow> LoErr err []
          | Inr flags \<Rightarrow>
              if flags AND IFF_UP \<noteq> 0 then LoOk []
              else
                let flags = flags OR IFF_UP
                in if lo_setflags e fd flags \<noteq> 0 then LoErr (lo_setflags e fd flags) [LoSetFlags flags]
                   else LoOk [LoSetFlags flags])"

section \<open>Properties\<close>

lemma lo_sock_spec:
  "lo_sock e fams serr =
     (case find (\<lambda>fam. lo_socket e fam = 0) fams of
        Some fam \<Rightarrow> Inr fam
      | None \<Rightarrow> Inl (if serr = 0 \<and> fams \<noteq> [] then lo_socket e (hd fams) else serr))"
  by (induction fams arbitrary: serr) (auto split: option.splits)

text \<open>
  C33: The first family of which a socket can be made is used, and if there is none the first error
  is reported; an interface that is up is left alone, and otherwise the flags are set to the old
  ones with exactly the bit \<open>IFF_UP\<close> added.
\<close>

theorem lo_brings_up:
  "lo_main e =
     (case find (\<lambda>fam. lo_socket e fam = 0) [PF_INET, PF_PACKET, PF_INET6] of
        None \<Rightarrow> LoErr (lo_socket e PF_INET) []
      | Some fam \<Rightarrow>
          case lo_getflags e fam of
            Inl err \<Rightarrow> LoErr err []
          | Inr flags \<Rightarrow>
              if bit flags 0 then LoOk []
              else case lo_setflags e fam (set_bit 0 flags) of
                     err \<Rightarrow> if err = 0 then LoOk [LoSetFlags (set_bit 0 flags)]
                            else LoErr err [LoSetFlags (set_bit 0 flags)])"
proof -
  have "(flags AND 1 \<noteq> 0) = bit flags 0" "flags OR 1 = set_bit 0 flags" for flags :: u16
    by (simp_all add: and_one_eq bit_0 odd_iff_mod_2_eq_one set_bit_eq_or)
  then show ?thesis
    unfolding lo_main_def lo_sock_spec by (auto simp: Let_def split: option.splits sum.splits)
qed

end
