(* ===== verification/Devmon.thy ===== *)
theory Devmon
  imports Prelude
begin

unbundle bit_operations_syntax

text \<open>
  The state of the device monitor, \<^verbatim>\<open>src/early/helpers/devmon.cc\<close>: the connections of its clients,
  the devices it knows, the tables that find a device by its node, interface name, hardware
  address or number, and the member functions of \<open>struct device\<close> that tell the clients.

  The tables that the source keys by \<open>string_view\<close> are maps from the text of the key at the time
  it was inserted; a pointer to a device is the key of its entry in \<open>map_sys\<close>, whose entries are
  never erased. A member function takes the device by value and returns it updated: none of
  them reaches its own device through a table. Calls that leave the program are recorded in a
  log, and what they return is given by an environment that sees the log. The functions return
  \<open>None\<close> where the process dies: \<open>abort\<close>, an uncaught exception, or a null pointer that is read.
\<close>

section \<open>Data\<close>

datatype devtype = DEVICE_SYS | DEVICE_DEV | DEVICE_NETIF | DEVICE_MAC | DEVICE_USB

text \<open>The descriptors of the event loop; \<open>events\<close> is only passed on to \<open>poll\<close>.\<close>

record pollfd =
  pfd_fd :: int
  pfd_events :: u16
  pfd_revents :: u16

abbreviation (input) POLLIN :: u16 where "POLLIN \<equiv> 1"
abbreviation (input) POLLHUP :: u16 where "POLLHUP \<equiv> 16"

record conn =
  cn_handshake :: string
  cn_fd :: int
  cn_devtype :: "devtype option"
  cn_datalen :: u16
  cn_datastr :: string

definition new_conn :: "int \<Rightarrow> conn" where
  "new_conn fd = \<lparr>cn_handshake = replicate 8 NUL, cn_fd = fd, cn_devtype = None, cn_datalen = 0, cn_datastr = []\<rparr>"

text \<open>
  The sets of services are lists without repetition; the order in which the source goes through
  an unordered set is not specified. A service handle is a number, \<open>None\<close> a null pointer.
\<close>

record device =
  dv_name :: string
  dv_mac :: string
  dv_syspath :: string
  dv_subsys :: string
  dv_devset :: "nat set"
  dv_dsvcset :: "string list"
  dv_psvcset :: "string list"
  dv_nsvcset :: "string list"
  dv_device_svc :: "nat option"
  dv_pending_svcs :: u64
  dv_removed :: bool
  dv_processing :: bool
  dv_removal :: bool
  dv_pending :: bool
  dv_has_tag :: bool

definition new_device :: device where
  "new_device = \<lparr>dv_name = [], dv_mac = [], dv_syspath = [], dv_subsys = [], dv_devset = {},
     dv_dsvcset = [], dv_psvcset = [], dv_nsvcset = [], dv_device_svc = None, dv_pending_svcs = 0,
     dv_removed = False, dv_processing = False, dv_removal = False, dv_pending = False, dv_has_tag = False\<rparr>"

text \<open>
  The functions that are passed to the dinit library as callbacks, with their data:
  \<open>CbFinish\<close> is any of the lambdas that only finish their request, \<open>CbDep\<close> and \<open>CbDepNoWake\<close>
  are \<open>dep_cb\<close> and \<open>dep_nowake_cb\<close>.
\<close>

datatype dm_cb = CbFinish | CbDevLoad string | CbDevAdd string | CbSubLoad bool string
  | CbDep nat | CbDepNoWake nat

datatype dm_call =
    DmWrite int u8 | DmRead int nat | DmClose int
  | DmLoad string bool dm_cb | DmDepend "nat option" nat bool bool dm_cb
  | DmWake nat | DmCloseHandle nat | DmAbort

record dm =
  fds :: "pollfd list"
  conns :: "conn list"
  map_dev :: "string \<rightharpoonup> string"
  map_netif :: "string \<rightharpoonup> string"
  map_mac :: "string \<rightharpoonup> string"
  map_sys :: "string \<rightharpoonup> device"
  map_usb :: "nat \<rightharpoonup> string"
  map_svcdev :: "nat \<rightharpoonup> string"
  dm_reqs :: "dm_cb list"
  dm_log :: "dm_call list"

definition dm_start :: dm where
  "dm_start = \<lparr>fds = [], conns = [], map_dev = Map.empty, map_netif = Map.empty, map_mac = Map.empty,
     map_sys = Map.empty, map_usb = Map.empty, map_svcdev = Map.empty, dm_reqs = [], dm_log = []\<rparr>"

text \<open>What \<open>lstat\<close> and \<open>realpath\<close> say of a path.\<close>

datatype dm_link = NotLink | Unresolved | NoMemory | Resolved string

text \<open>
  The environment: whether a byte can be written, what a link resolves to, what \<open>read\<close> returns
  (\<open>Inl\<close> is the error number), whether a request to dinit can be issued, and the handle of the
  system service.
\<close>

record dm_env =
  de_write :: "dm_call list \<Rightarrow> int \<Rightarrow> bool"
  de_link :: "dm_call list \<Rightarrow> string \<Rightarrow> dm_link"
  de_read :: "dm_call list \<Rightarrow> int \<Rightarrow> nat \<Rightarrow> int + string"
  de_issue :: "dm_call list \<Rightarrow> dm_call \<Rightarrow> bool"
  de_system :: nat

text \<open>\<open>emplace\<close> of an unordered map keeps an entry that is there.\<close>

definition emplace :: "('k \<rightharpoonup> 'v) \<Rightarrow> 'k \<Rightarrow> 'v \<Rightarrow> ('k \<rightharpoonup> 'v)" where
  "emplace m k v = (case m k of None \<Rightarrow> m(k \<mapsto> v) | Some _ \<Rightarrow> m)"

section \<open>Device nodes\<close>

text \<open>
  What a path is compared with: the table, or the node \<open>devn\<close>. The result is what \<open>*syspath\<close> is
  set to, where it is.
\<close>

definition node_match :: "dm \<Rightarrow> string option \<Rightarrow> string \<Rightarrow> string option option" where
  "node_match st devn node =
     (case devn of
        None \<Rightarrow> map_option Some (map_dev st node)
      | Some d \<Rightarrow> if node = d then Some None else None)"

definition check_devnode :: "dm_env \<Rightarrow> dm \<Rightarrow> string \<Rightarrow> string option \<Rightarrow> (bool \<times> string option) option" where
  "check_devnode e st node devn =
     (case node_match st devn node of
        Some sysp \<Rightarrow> Some (True, sysp)
      | None \<Rightarrow>
          (case de_link e (dm_log st) (cstr node) of
             NotLink \<Rightarrow> Some (False, None)
           | NoMemory \<Rightarrow> None
           | Unresolved \<Rightarrow> Some (False, None)
           | Resolved respath \<Rightarrow>
               (case node_match st devn respath of
                  Some sysp \<Rightarrow> Some (True, sysp)
                | None \<Rightarrow> Some (False, None))))"

section \<open>Telling the clients\<close>

fun drop_pfd :: "int \<Rightarrow> pollfd list \<Rightarrow> pollfd list" where
  "drop_pfd fd [] = []"
| "drop_pfd fd (p # ps) =
     (if pfd_fd p = fd then p\<lparr>pfd_fd := -1, pfd_revents := 0\<rparr> # ps else p # drop_pfd fd ps)"

definition write_conn :: "dm_env \<Rightarrow> conn \<Rightarrow> u8 \<Rightarrow> pollfd list \<Rightarrow> dm_call list \<Rightarrow> conn \<times> pollfd list \<times> dm_call list" where
  "write_conn e cn igot fs l =
     (let l' = l @ [DmWrite (cn_fd cn) igot]
      in if de_write e l (cn_fd cn) then (cn, fs, l')
         else (cn\<lparr>cn_fd := -1\<rparr>, drop_pfd (cn_fd cn) fs, l' @ [DmClose (cn_fd cn)]))"

text \<open>
  The loop over the connections that \<open>write_gen\<close> and \<open>write_dev\<close> share; \<open>sel\<close> is the condition
  under which a connection is not passed over.
\<close>

fun write_loop :: "dm_env \<Rightarrow> (dm_call list \<Rightarrow> conn \<Rightarrow> bool option) \<Rightarrow> u8 \<Rightarrow> conn list \<Rightarrow> pollfd list \<Rightarrow> dm_call list
    \<Rightarrow> (conn list \<times> pollfd list \<times> dm_call list) option" where
  "write_loop e sel igot [] fs l = Some ([], fs, l)"
| "write_loop e sel igot (cn # cns) fs l =
     do {
       s \<leftarrow> sel l cn;
       let (cn, fs, l) = (if s then write_conn e cn igot fs l else (cn, fs, l));
       (cns, fs, l) \<leftarrow> write_loop e sel igot cns fs l;
       Some (cn # cns, fs, l)
     }"

definition write_all :: "dm_env \<Rightarrow> (dm_call list \<Rightarrow> conn \<Rightarrow> bool option) \<Rightarrow> u8 \<Rightarrow> dm \<Rightarrow> dm option" where
  "write_all e sel igot st =
     map_option (\<lambda>(cns, fs, l). st\<lparr>conns := cns, fds := fs, dm_log := l\<rparr>)
       (write_loop e sel igot (conns st) (fds st) (dm_log st))"

definition sel_gen :: "devtype \<Rightarrow> string \<Rightarrow> dm_call list \<Rightarrow> conn \<Rightarrow> bool option" where
  "sel_gen devt name l cn = Some (cn_devtype cn = Some devt \<and> cn_datastr cn = name)"

definition write_gen :: "dm_env \<Rightarrow> devtype \<Rightarrow> u8 \<Rightarrow> string \<Rightarrow> dm \<Rightarrow> dm option" where
  "write_gen e devt igot name st = write_all e (sel_gen devt name) igot st"

definition sel_dev :: "dm_env \<Rightarrow> dm \<Rightarrow> string \<Rightarrow> dm_call list \<Rightarrow> conn \<Rightarrow> bool option" where
  "sel_dev e st name l cn =
     (if cn_devtype cn \<noteq> Some DEVICE_DEV then Some False
      else map_option fst (check_devnode e (st\<lparr>dm_log := l\<rparr>) (cn_datastr cn) (Some name)))"

definition write_dev :: "dm_env \<Rightarrow> u8 \<Rightarrow> string \<Rightarrow> dm \<Rightarrow> dm option" where
  "write_dev e igot name st = write_all e (sel_dev e st name) igot st"

section \<open>Member functions of a device\<close>

definition init_dev :: "string option \<Rightarrow> device \<Rightarrow> dm \<Rightarrow> device \<times> dm" where
  "init_dev node d st =
     (case node of
        None \<Rightarrow> (d, st)
      | Some n \<Rightarrow> (d\<lparr>dv_name := n\<rparr>, st\<lparr>map_dev := emplace (map_dev st) n (dv_syspath d)\<rparr>))"

definition init_net :: "string option \<Rightarrow> string option \<Rightarrow> device \<Rightarrow> dm \<Rightarrow> device \<times> dm" where
  "init_net ifname macaddr d st =
     (let d = (case ifname of None \<Rightarrow> d | Some n \<Rightarrow> d\<lparr>dv_name := n\<rparr>);
          d = (case macaddr of None \<Rightarrow> d | Some a \<Rightarrow> d\<lparr>dv_mac := a\<rparr>);
          st = (if ifname \<noteq> None then st\<lparr>map_netif := emplace (map_netif st) (dv_name d) (dv_syspath d)\<rparr> else st);
          st = (if macaddr \<noteq> None then st\<lparr>map_mac := emplace (map_mac st) (dv_mac d) (dv_syspath d)\<rparr> else st)
      in (d, st))"

text \<open>The test at the start of the three setters: the new value is the old one.\<close>

definition unchanged :: "string \<Rightarrow> string option \<Rightarrow> bool" where
  "unchanged old new = (case new of Some n \<Rightarrow> old = n | None \<Rightarrow> old = [])"

definition set_dev :: "dm_env \<Rightarrow> string option \<Rightarrow> device \<Rightarrow> dm \<Rightarrow> (device \<times> dm) option" where
  "set_dev e devnode d st =
     (if unchanged (dv_name d) devnode then Some (d, st)
      else do {
        st \<leftarrow> write_dev e 0 (dv_name d) st;
        let st = st\<lparr>map_dev := (map_dev st)(dv_name d := None)\<rparr>;
        case devnode of
          Some n \<Rightarrow> Some (d\<lparr>dv_name := n\<rparr>, st\<lparr>map_dev := emplace (map_dev st) n (dv_syspath d)\<rparr>)
        | None \<Rightarrow> Some (d\<lparr>dv_name := []\<rparr>, st)
      })"

definition set_ifname :: "dm_env \<Rightarrow> string option \<Rightarrow> device \<Rightarrow> dm \<Rightarrow> (device \<times> dm) option" where
  "set_ifname e ifname d st =
     (if unchanged (dv_name d) ifname then Some (d, st)
      else do {
        st \<leftarrow> write_gen e DEVICE_NETIF 0 (dv_name d) st;
        let st = st\<lparr>map_netif := (map_netif st)(dv_name d := None)\<rparr>;
        case ifname of
          Some n \<Rightarrow> Some (d\<lparr>dv_name := n\<rparr>, st\<lparr>map_netif := emplace (map_netif st) n (dv_syspath d)\<rparr>)
        | None \<Rightarrow> Some (d\<lparr>dv_name := []\<rparr>, st)
      })"

text \<open>The source stores the new address under the key \<open>name\<close>.\<close>

definition set_mac :: "dm_env \<Rightarrow> string option \<Rightarrow> device \<Rightarrow> dm \<Rightarrow> (device \<times> dm) option" where
  "set_mac e nmac d st =
     (if unchanged (dv_mac d) nmac then Some (d, st)
      else do {
        st \<leftarrow> write_gen e DEVICE_MAC 0 (dv_mac d) st;
        let st = st\<lparr>map_mac := (map_mac st)(dv_mac d := None)\<rparr>;
        case nmac of
          Some n \<Rightarrow> Some (d\<lparr>dv_mac := n\<rparr>, st\<lparr>map_mac := emplace (map_mac st) (dv_name d) (dv_syspath d)\<rparr>)
        | None \<Rightarrow> Some (d\<lparr>dv_mac := []\<rparr>, st)
      })"

definition ready :: "dm_env \<Rightarrow> u8 \<Rightarrow> device \<Rightarrow> dm \<Rightarrow> dm option" where
  "ready e status d st =
     (if dv_subsys d = ''usb'' then write_gen e DEVICE_USB status (dv_syspath d) st
      else do {
        st \<leftarrow> write_gen e DEVICE_SYS status (dv_syspath d) st;
        if dv_subsys d = ''net'' then do {
          st \<leftarrow> (if dv_name d \<noteq> [] then write_gen e DEVICE_NETIF status (dv_name d) st else Some st);
          if dv_mac d \<noteq> [] then write_gen e DEVICE_MAC status (dv_mac d) st else Some st
        }
        else if dv_name d \<noteq> [] then write_dev e status (dv_name d) st else Some st
      })"

text \<open>A device as udev describes it: \<open>None\<close> is a null pointer, and the number 0 is no number.\<close>

record udev_device =
  ud_syspath :: "string option"
  ud_subsystem :: "string option"
  ud_action :: "string option"
  ud_devnode :: "string option"
  ud_sysname :: "string option"
  ud_sysattr :: "string \<Rightarrow> string option"
  ud_property :: "string \<Rightarrow> string option"
  ud_devnum :: nat
  ud_has_tag :: "string \<Rightarrow> bool"

definition device_init :: "udev_device \<Rightarrow> nat \<Rightarrow> device \<Rightarrow> dm \<Rightarrow> device \<times> dm" where
  "device_init dev devnum d st =
     (let (d, st) =
        (if devnum \<noteq> 0 then (d\<lparr>dv_devset := insert devnum (dv_devset d)\<rparr>, st)
         else if dv_subsys d \<noteq> ''net'' then init_dev (ud_devnode dev) d st
         else init_net (ud_sysname dev) (ud_sysattr dev ''address'') d st)
      in (d\<lparr>dv_removed := False\<rparr>, st))"

definition device_set :: "dm_env \<Rightarrow> udev_device \<Rightarrow> nat \<Rightarrow> device \<Rightarrow> dm \<Rightarrow> (device \<times> dm) option" where
  "device_set e dev devnum d st =
     do {
       (d, st) \<leftarrow>
         (if devnum \<noteq> 0 then Some (d\<lparr>dv_devset := insert devnum (dv_devset d)\<rparr>, st)
          else if dv_subsys d \<noteq> ''net'' then set_dev e (ud_devnode dev) d st
          else do {
            (d, st) \<leftarrow> set_ifname e (ud_sysname dev) d st;
            set_mac e (ud_sysattr dev ''address'') d st
          });
       Some (d\<lparr>dv_removed := False\<rparr>, st)
     }"

text \<open>The source clears \<open>name\<close> before it erases the hardware address under the key \<open>name\<close>.\<close>

definition device_remove :: "device \<Rightarrow> dm \<Rightarrow> device \<times> dm" where
  "device_remove d st =
     (if dv_subsys d = ''net'' then
        let (d, st) =
              (if dv_name d \<noteq> [] then
                 (d\<lparr>dv_name := []\<rparr>, st\<lparr>map_netif := (map_netif st)(dv_name d := None)\<rparr>)
               else (d, st))
        in if dv_mac d \<noteq> [] then (d\<lparr>dv_mac := []\<rparr>, st\<lparr>map_mac := (map_mac st)(dv_name d := None)\<rparr>)
           else (d, st)
      else if dv_name d \<noteq> [] then
        (d\<lparr>dv_name := []\<rparr>, st\<lparr>map_dev := (map_dev st)(dv_name d := None)\<rparr>)
      else (d, st))"

section \<open>What telling the clients changes\<close>

text \<open>\<open>realpath\<close> never runs out of memory.\<close>

definition mem_ok :: "dm_env \<Rightarrow> bool" where
  "mem_ok e \<longleftrightarrow> (\<forall>l p. de_link e l p \<noteq> NoMemory)"

lemma check_devnode_total: "mem_ok e \<Longrightarrow> yields (check_devnode e st node devn) (\<lambda>_. True)"
  by (auto simp: check_devnode_def mem_ok_def split: option.splits dm_link.splits)

definition conn_told :: "conn \<Rightarrow> conn \<Rightarrow> bool" where
  "conn_told c c' \<longleftrightarrow> c' = c \<or> c' = c\<lparr>cn_fd := -1\<rparr>"

definition pfd_told :: "int set \<Rightarrow> pollfd \<Rightarrow> pollfd \<Rightarrow> bool" where
  "pfd_told F p p' \<longleftrightarrow> p' = p \<or> pfd_fd p \<in> F \<and> p' = p\<lparr>pfd_fd := -1, pfd_revents := 0\<rparr>"

definition conn_fds :: "conn list \<Rightarrow> int set" where
  "conn_fds cns = insert (-1) (cn_fd ` set cns)"

text \<open>
  Connections and descriptors may have been closed, each descriptor only if it is in \<open>F\<close>, and
  nothing else has changed.
\<close>

definition told :: "int set \<Rightarrow> dm \<Rightarrow> dm \<Rightarrow> bool" where
  "told F st st' \<longleftrightarrow>
     map_dev st' = map_dev st \<and> map_netif st' = map_netif st \<and> map_mac st' = map_mac st \<and>
     map_sys st' = map_sys st \<and> map_usb st' = map_usb st \<and> map_svcdev st' = map_svcdev st \<and>
     dm_reqs st' = dm_reqs st \<and>
     list_all2 conn_told (conns st) (conns st') \<and>
     list_all2 (pfd_told F) (fds st) (fds st') \<and> conn_fds (conns st') \<subseteq> F"

lemma conn_told_refl [simp, intro!]: "conn_told c c"
  by (simp add: conn_told_def)

lemma pfd_told_refl [simp, intro!]: "pfd_told F p p"
  by (simp add: pfd_told_def)

lemma conn_told_trans: "conn_told a b \<Longrightarrow> conn_told b c \<Longrightarrow> conn_told a c"
  by (auto simp: conn_told_def)

lemma pfd_told_trans: "pfd_told F a b \<Longrightarrow> pfd_told F b c \<Longrightarrow> pfd_told F a c"
  by (auto simp: pfd_told_def)

lemma told_refl: "conn_fds (conns st) \<subseteq> F \<Longrightarrow> told F st st"
  by (simp add: told_def list.rel_refl)

lemma told_trans:
  assumes "told F a b" and "told F b c"
  shows "told F a c"
proof -
  have "list_all2 conn_told (conns a) (conns c)"
    using assms by (auto simp: told_def intro: list_all2_trans [OF conn_told_trans])
  moreover have "list_all2 (pfd_told F) (fds a) (fds c)"
    using assms by (auto simp: told_def intro: list_all2_trans [OF pfd_told_trans])
  ultimately show ?thesis using assms by (simp add: told_def)
qed

lemma told_fds: "told F st0 st \<Longrightarrow> conn_fds (conns st) \<subseteq> F"
  by (simp add: told_def)

lemma drop_pfd_told: "fd \<in> F \<Longrightarrow> list_all2 (pfd_told F) fs (drop_pfd fd fs)"
  by (induction fs) (auto simp: pfd_told_def intro: list.rel_refl)

lemma write_loop_told:
  assumes "\<And>l cn. yields (sel l cn) (\<lambda>_. True)" and "conn_fds cns \<subseteq> F"
  shows "yields (write_loop e sel b cns fs l)
    (\<lambda>(cns', fs', l'). list_all2 conn_told cns cns' \<and> list_all2 (pfd_told F) fs fs')"
  using assms(2)
proof (induction cns arbitrary: fs l)
  case Nil
  then show ?case by (simp add: list.rel_refl)
next
  case (Cons cn cns)
  obtain s where s: "sel l cn = Some s" using assms(1) [of l cn] by (auto dest: yieldsD)
  obtain cn' fs' l' where w: "(if s then write_conn e cn b fs l else (cn, fs, l)) = (cn', fs', l')"
    by (metis prod_cases3)
  then have told: "conn_told cn cn'" "list_all2 (pfd_told F) fs fs'"
    using Cons.prems
    by (auto simp: write_conn_def Let_def conn_told_def conn_fds_def split: if_splits
        intro: list.rel_refl drop_pfd_told)
  have "yields (write_loop e sel b cns fs' l')
    (\<lambda>(cns', fs'', l''). list_all2 conn_told cns cns' \<and> list_all2 (pfd_told F) fs' fs'')"
    using Cons by (auto simp: conn_fds_def)
  then show ?case
    using told list_all2_trans [of "pfd_told F" "pfd_told F" "pfd_told F", OF pfd_told_trans]
    by (auto simp: s w dest!: yieldsD)
qed

lemma conn_told_fds: "list_all2 conn_told cs cs' \<Longrightarrow> conn_fds cs' \<subseteq> conn_fds cs"
  by (induction rule: list_all2_induct) (auto simp: conn_told_def conn_fds_def)

lemma write_all_told:
  assumes "\<And>l cn. yields (sel l cn) (\<lambda>_. True)" and "told F st0 st"
  shows "yields (write_all e sel b st) (told F st0)"
proof (rule yields_mono [of _ "told F st"])
  have F: "conn_fds (conns st) \<subseteq> F" using assms(2) by (rule told_fds)
  show "yields (write_all e sel b st) (told F st)"
    using write_loop_told [of sel "conns st" F e b "fds st" "dm_log st", OF assms(1) F] F
    by (auto simp: write_all_def told_def dest!: yieldsD) (meson conn_told_fds subsetD)
qed (rule told_trans [OF assms(2)])

lemma write_gen_told: "told F st0 st \<Longrightarrow> yields (write_gen e t b n st) (told F st0)"
  unfolding write_gen_def by (rule write_all_told) (auto simp: sel_gen_def)

lemma write_dev_told: "mem_ok e \<Longrightarrow> told F st0 st \<Longrightarrow> yields (write_dev e b n st) (told F st0)"
  unfolding write_dev_def
  by (rule write_all_told) (auto simp: sel_dev_def intro: yields_mono [OF check_devnode_total])

lemma ready_told: "mem_ok e \<Longrightarrow> told F st0 st \<Longrightarrow> yields (ready e b d st) (told F st0)"
  unfolding ready_def
  by (auto intro!: write_gen_told write_dev_told yields_bind [of _ "told F st0"])

section \<open>Small instances\<close>

text \<open>
  An environment in which every call succeeds and nothing is a link, a client that has sent the whole
  of its request, and an event of an untagged device: the instances on which statements are tried.
\<close>

definition calm_env :: dm_env where
  "calm_env = \<lparr>de_write = (\<lambda>l fd. True), de_link = (\<lambda>l p. NotLink), de_read = (\<lambda>l fd n. Inl EAGAIN),
     de_issue = (\<lambda>l c. True), de_system = 1\<rparr>"

definition client :: "int \<Rightarrow> devtype \<Rightarrow> string \<Rightarrow> conn" where
  "client fd t s = \<lparr>cn_handshake = replicate 8 (CHR 0xDD), cn_fd = fd, cn_devtype = Some t,
     cn_datalen = of_nat (length s), cn_datastr = s\<rparr>"

definition udev_event :: "string \<Rightarrow> string \<Rightarrow> string \<Rightarrow> string \<Rightarrow> udev_device" where
  "udev_event act sysp ssys name = \<lparr>ud_syspath = Some sysp, ud_subsystem = Some ssys, ud_action = Some act,
     ud_devnode = Some name, ud_sysname = Some name, ud_sysattr = Map.empty, ud_property = Map.empty,
     ud_devnum = 0, ud_has_tag = (\<lambda>t. False)\<rparr>"

end
