(* ===== verification/Devmon_Dinit.thy ===== *)
theory Devmon_Dinit
  imports Devmon
begin

unbundle bit_operations_syntax

text \<open>
  How the device monitor of \<^verbatim>\<open>src/early/helpers/devmon.cc\<close> drives dinit: \<open>device::process\<close>, the
  callbacks of the requests to dinit, and the handling of the devices that udev reports.

  A request that could be issued puts its callback into \<open>dm_reqs\<close>; the library answers in an order
  of its own, so that an event names the request by its position. The contents of a set that has
  been moved from are empty, as in the implementations of the standard library.
\<close>

section \<open>Requests\<close>

definition issue :: "dm_env \<Rightarrow> dm_call \<Rightarrow> dm_cb \<Rightarrow> dm \<Rightarrow> bool \<times> dm" where
  "issue e c cb st =
     (let ok = de_issue e (dm_log st) c
      in (ok, st\<lparr>dm_log := dm_log st @ [c], dm_reqs := (if ok then dm_reqs st @ [cb] else dm_reqs st)\<rparr>))"

definition dinit_abort :: "dm \<Rightarrow> dm" where
  "dinit_abort st = st\<lparr>dm_log := dm_log st @ [DmAbort]\<rparr>"

definition load_async :: "dm_env \<Rightarrow> string \<Rightarrow> bool \<Rightarrow> dm_cb \<Rightarrow> dm \<Rightarrow> bool \<times> dm" where
  "load_async e svc find_only cb st = issue e (DmLoad svc find_only cb) cb st"

definition depend_async :: "dm_env \<Rightarrow> nat option \<Rightarrow> nat \<Rightarrow> bool \<Rightarrow> bool \<Rightarrow> dm_cb \<Rightarrow> dm \<Rightarrow> bool \<times> dm" where
  "depend_async e from to remove enable cb st = issue e (DmDepend from to remove enable cb) cb st"

definition close_async :: "dm_env \<Rightarrow> nat \<Rightarrow> dm \<Rightarrow> bool \<times> dm" where
  "close_async e h st = issue e (DmCloseHandle h) CbFinish st"

text \<open>The device a pointer stands for, and an assignment through the pointer.\<close>

definition dev_at :: "dm \<Rightarrow> string \<Rightarrow> device" where
  "dev_at st k = (case map_sys st k of Some d \<Rightarrow> d | None \<Rightarrow> new_device)"

definition put_dev :: "string \<Rightarrow> device \<Rightarrow> dm \<Rightarrow> dm" where
  "put_dev k d st = st\<lparr>map_sys := (map_sys st)(k \<mapsto> d)\<rparr>"

section \<open>Processing an event of a device\<close>

text \<open>\<open>if (device_svc && close < 0)\<close>: whether to go on.\<close>

definition close_device_svc :: "dm_env \<Rightarrow> device \<Rightarrow> dm \<Rightarrow> bool \<times> dm" where
  "close_device_svc e d st = (case dv_device_svc d of None \<Rightarrow> (True, st) | Some h \<Rightarrow> close_async e h st)"

definition process :: "dm_env \<Rightarrow> device \<Rightarrow> dm \<Rightarrow> (bool \<times> device \<times> dm) option" where
  "process e d st =
     (case close_device_svc e d st of
        (False, st) \<Rightarrow> Some (False, d\<lparr>dv_processing := False, dv_pending := False\<rparr>, st)
      | (True, st) \<Rightarrow>
          do {
            let d = d\<lparr>dv_device_svc := None\<rparr>;
            st \<leftarrow> ready e (if dv_removal d then 0 else 1) d st;
            let d = d\<lparr>dv_dsvcset := dv_psvcset d, dv_psvcset := dv_nsvcset d, dv_nsvcset := []\<rparr>;
            if \<not> dv_pending d then Some (True, d\<lparr>dv_processing := False\<rparr>, st)
            else
              let d = d\<lparr>dv_pending := False, dv_removal := dv_removed d\<rparr>
              in case load_async e (''device@'' @ dv_syspath d) (dv_removed d) (CbDevLoad (dv_syspath d)) st of
                   (False, st) \<Rightarrow> Some (False, d\<lparr>dv_processing := False\<rparr>, st)
                 | (True, st) \<Rightarrow> Some (True, d\<lparr>dv_processing := True\<rparr>, st)
          })"

text \<open>\<open>if (!dev->process (ctl)) dinitctl_abort (ctl, errno)\<close>.\<close>

definition process_or_abort :: "dm_env \<Rightarrow> string \<Rightarrow> dm \<Rightarrow> dm option" where
  "process_or_abort e k st =
     do {
       (ok, d, st) \<leftarrow> process e (dev_at st k) st;
       let st = put_dev k d st;
       Some (if ok then st else dinit_abort st)
     }"

text \<open>\<open>if (!--dev->pending_svcs && !dev->process (ctl)) dinitctl_abort (ctl, errno)\<close>.\<close>

definition svc_done :: "dm_env \<Rightarrow> string \<Rightarrow> dm \<Rightarrow> dm option" where
  "svc_done e k st =
     (let d = dev_at st k; n = dv_pending_svcs d - 1;
          st = put_dev k (d\<lparr>dv_pending_svcs := n\<rparr>) st
      in if n = 0 then process_or_abort e k st else Some st)"

section \<open>Callbacks\<close>

definition handle_dinit_event :: "dm_env \<Rightarrow> nat \<Rightarrow> dm \<Rightarrow> dm option" where
  "handle_dinit_event e handle st =
     (case map_svcdev st handle of
        None \<Rightarrow> Some st
      | Some k \<Rightarrow>
          do {
            st \<leftarrow> svc_done e k st;
            let st = st\<lparr>map_svcdev := (map_svcdev st)(handle := None)\<rparr>;
            case close_async e handle st of
              (True, st) \<Rightarrow> Some st
            | (False, st) \<Rightarrow> Some (dinit_abort st)
          })"

text \<open>
  What a load request returns: its result, the handle it stores and whether the service is
  started; the other requests are only finished. The handle of a failed load is what the
  variable holds in which the caller expects it.
\<close>

record dm_reply =
  rp_ret :: int
  rp_handle :: nat
  rp_started :: bool

definition dinit_subsvc_load_cb_base :: "dm_env \<Rightarrow> string \<Rightarrow> bool \<Rightarrow> dm_reply \<Rightarrow> dm \<Rightarrow> dm option" where
  "dinit_subsvc_load_cb_base e k removal r st =
     (if rp_ret r < 0 then Some (dinit_abort st)
      else if rp_ret r > 0 then svc_done e k st
      else
        let ish = rp_handle r;
            no_wake = (removal \<or> rp_started r);
            st = (if no_wake then st else st\<lparr>map_svcdev := emplace (map_svcdev st) ish k\<rparr>)
        in case depend_async e (dv_device_svc (dev_at st k)) ish removal (\<not> removal)
                  (if no_wake then CbDepNoWake ish else CbDep ish) st of
             (False, st) \<Rightarrow> Some (dinit_abort st)
           | (True, st) \<Rightarrow> if no_wake then svc_done e k st else Some st)"

definition dep_cb :: "dm_env \<Rightarrow> nat \<Rightarrow> dm \<Rightarrow> dm" where
  "dep_cb e ish st =
     (case issue e (DmWake ish) CbFinish st of (ok, st) \<Rightarrow> if ok then st else dinit_abort st)"

definition dep_nowake_cb :: "dm_env \<Rightarrow> nat \<Rightarrow> dm \<Rightarrow> dm" where
  "dep_nowake_cb e ish st =
     (case close_async e ish st of (ok, st) \<Rightarrow> if ok then st else dinit_abort st)"

text \<open>One of the two loops of \<open>dinit_devsvc_add_cb\<close>; the result says whether it ran to its end.\<close>

fun load_loop :: "dm_env \<Rightarrow> string \<Rightarrow> bool \<Rightarrow> string list \<Rightarrow> dm \<Rightarrow> bool \<times> dm" where
  "load_loop e k del [] st = (True, st)"
| "load_loop e k del (svc # svcs) st =
     (case load_async e svc del (CbSubLoad del k) st of
        (False, st) \<Rightarrow> (False, dinit_abort st)
      | (True, st) \<Rightarrow>
          let d = dev_at st k
          in load_loop e k del svcs (put_dev k (d\<lparr>dv_pending_svcs := dv_pending_svcs d + 1\<rparr>) st))"

definition dinit_devsvc_add_cb :: "dm_env \<Rightarrow> string \<Rightarrow> dm \<Rightarrow> dm" where
  "dinit_devsvc_add_cb e k st =
     (let st = put_dev k ((dev_at st k)\<lparr>dv_pending_svcs := 0\<rparr>) st
      in case load_loop e k True (dv_dsvcset (dev_at st k)) st of
           (False, st) \<Rightarrow> st
         | (True, st) \<Rightarrow> snd (load_loop e k False (dv_psvcset (dev_at st k)) st))"

definition dinit_devsvc_load_cb :: "dm_env \<Rightarrow> string \<Rightarrow> dm_reply \<Rightarrow> dm \<Rightarrow> dm option" where
  "dinit_devsvc_load_cb e k r st =
     (let d = (dev_at st k)\<lparr>dv_device_svc := Some (rp_handle r)\<rparr>;
          st = put_dev k d st
      in if rp_ret r < 0 then Some (dinit_abort st)
         else if rp_ret r > 0 then process_or_abort e k st
         else
           case depend_async e (Some (de_system e)) (rp_handle r) (dv_removal d) (\<not> dv_removal d) (CbDevAdd k) st of
             (ok, st) \<Rightarrow> Some (if ok then st else dinit_abort st))"

fun run_cb :: "dm_env \<Rightarrow> dm_cb \<Rightarrow> dm_reply \<Rightarrow> dm \<Rightarrow> dm option" where
  "run_cb e CbFinish r st = Some st"
| "run_cb e (CbDevLoad k) r st = dinit_devsvc_load_cb e k r st"
| "run_cb e (CbDevAdd k) r st = Some (dinit_devsvc_add_cb e k st)"
| "run_cb e (CbSubLoad removal k) r st = dinit_subsvc_load_cb_base e k removal r st"
| "run_cb e (CbDep h) r st = Some (dep_cb e h st)"
| "run_cb e (CbDepNoWake h) r st = Some (dep_nowake_cb e h st)"

text \<open>
  What the library does in \<open>dinitctl_dispatch\<close>: it answers the request at some position, or
  reports an event of a service.
\<close>

datatype dinit_ev = EvReply nat dm_reply | EvService nat

definition dinit_event :: "dm_env \<Rightarrow> dinit_ev \<Rightarrow> dm \<Rightarrow> dm option" where
  "dinit_event e ev st =
     (case ev of
        EvReply i r \<Rightarrow>
          if i < length (dm_reqs st)
          then run_cb e (dm_reqs st ! i) r (st\<lparr>dm_reqs := take i (dm_reqs st) @ drop (Suc i) (dm_reqs st)\<rparr>)
          else Some st
      | EvService h \<Rightarrow> handle_dinit_event e h st)"

section \<open>Devices\<close>

lemma svc_words_shorter:
  assumes "takeWhile (\<lambda>c. \<not> P c) (dropWhile P s) \<noteq> []"
  shows "length (dropWhile (\<lambda>c. \<not> P c) (dropWhile P s)) < length s"
proof (cases "dropWhile P s")
  case Nil
  with assms show ?thesis by simp
next
  case (Cons c r)
  with assms have c: "\<not> P c" by (auto split: if_splits)
  have "length (dropWhile (\<lambda>c. \<not> P c) r) \<le> length r" by (rule length_dropWhile_le)
  also have "length r < length s" using length_dropWhile_le [of P s] Cons by simp
  finally show ?thesis using Cons c by simp
qed

text \<open>The words of \<open>DINIT_WAITS_FOR\<close>.\<close>

function svc_words :: "string \<Rightarrow> string list" where
  "svc_words svcs =
     (let svcs = dropWhile isspace svcs;
          sv = takeWhile (\<lambda>c. \<not> isspace c) svcs
      in if sv = [] then [] else sv # svc_words (dropWhile (\<lambda>c. \<not> isspace c) svcs))"
  by pat_completeness auto

termination
  by (relation "measure length") (auto intro: svc_words_shorter simp: Let_def)

declare svc_words.simps [simp del]

definition svc_set_of :: "string \<Rightarrow> string list" where
  "svc_set_of svcs = fold List.insert (svc_words svcs) []"

definition handle_device_dinit :: "dm_env \<Rightarrow> udev_device \<Rightarrow> device \<Rightarrow> dm \<Rightarrow> (bool \<times> device \<times> dm) option" where
  "handle_device_dinit e dev d st =
     (let d = (if dv_has_tag d then d else d\<lparr>dv_has_tag := ud_has_tag dev ''dinit''\<rparr>)
      in if \<not> dv_has_tag d then
           map_option (\<lambda>st. (True, d, st)) (ready e (if dv_removed d then 0 else 1) d st)
         else
           let svcs = (if dv_removed d then [] else case ud_property dev ''DINIT_WAITS_FOR'' of Some s \<Rightarrow> s | None \<Rightarrow> []);
               d = d\<lparr>dv_nsvcset := svc_set_of svcs, dv_pending := True\<rparr>
           in if dv_processing d then Some (True, d, st) else process e d st)"

text \<open>The key and the number of a device; \<open>None\<close> for a USB device without an id.\<close>

definition device_key :: "udev_device \<Rightarrow> string \<Rightarrow> string \<Rightarrow> (string \<times> nat) option" where
  "device_key dev sysp ssys =
     (if ssys = ''usb'' then
        (case (ud_sysattr dev ''idVendor'', ud_sysattr dev ''idProduct'') of
           (Some vendid, Some prodid) \<Rightarrow> Some (vendid @ '':'' @ prodid, ud_devnum dev)
         | _ \<Rightarrow> None)
      else Some (sysp, 0))"

text \<open>A new entry, or one of a device that was removed.\<close>

definition add_new :: "dm_env \<Rightarrow> udev_device \<Rightarrow> string \<Rightarrow> string \<Rightarrow> nat \<Rightarrow> device \<Rightarrow> dm \<Rightarrow> (bool \<times> dm) option" where
  "add_new e dev k ssys devnum d st =
     do {
       let (d, st) = device_init dev devnum (d\<lparr>dv_syspath := k, dv_subsys := ssys\<rparr>) st;
       let st = (if devnum \<noteq> 0 then st\<lparr>map_usb := (map_usb st)(devnum \<mapsto> k)\<rparr> else st);
       (ok, d, st) \<leftarrow> handle_device_dinit e dev d st;
       Some (ok, put_dev k d st)
     }"

definition add_device :: "dm_env \<Rightarrow> udev_device \<Rightarrow> string \<Rightarrow> string \<Rightarrow> dm \<Rightarrow> (bool \<times> dm) option" where
  "add_device e dev sysp ssys st =
     (case device_key dev sysp ssys of
        None \<Rightarrow> Some (True, st)
      | Some (k, devnum) \<Rightarrow>
          (case map_sys st k of
             None \<Rightarrow> add_new e dev k ssys devnum new_device st
           | Some d \<Rightarrow>
               if dv_removed d then add_new e dev k ssys devnum d st
               else do {
                 (d, st) \<leftarrow> device_set e dev devnum d st;
                 (ok, d, st) \<leftarrow> handle_device_dinit e dev d st;
                 Some (ok, put_dev k d st)
               }))"

text \<open>
  The first part of \<open>remove_device\<close>: a device with a number that is known is taken out of the set
  of its match id. The result is the key to go on with, unless other devices have that id.
\<close>

definition remove_usb :: "nat \<Rightarrow> string \<Rightarrow> dm \<Rightarrow> string option \<times> dm" where
  "remove_usb devn sysp st =
     (if devn = 0 then (Some sysp, st)
      else case map_usb st devn of
        None \<Rightarrow> (Some sysp, st)
      | Some k \<Rightarrow>
          let d = dev_at st k;
              d = d\<lparr>dv_devset := dv_devset d - {devn}\<rparr>;
              st = (put_dev k d st)\<lparr>map_usb := (map_usb st)(devn := None)\<rparr>
          in (if dv_devset d = {} then Some (dv_syspath d) else None, st))"

definition remove_device :: "dm_env \<Rightarrow> udev_device \<Rightarrow> string \<Rightarrow> dm \<Rightarrow> (bool \<times> dm) option" where
  "remove_device e dev sysp st =
     (case remove_usb (ud_devnum dev) sysp st of
        (None, st) \<Rightarrow> Some (True, st)
      | (Some k, st) \<Rightarrow>
          (case map_sys st k of
             None \<Rightarrow> Some (True, st)
           | Some d \<Rightarrow>
               if dv_removed d then Some (True, st)
               else do {
                 (ok, d, st) \<leftarrow> handle_device_dinit e dev (d\<lparr>dv_removed := True\<rparr>) st;
                 if \<not> ok then Some (False, put_dev k d st)
                 else
                   let (d, st) = device_remove d st
                   in Some (True, put_dev k d st)
               }))"

text \<open>
  The devices of an enumeration, each with its path, or \<open>None\<close> where it could not be made; \<open>None\<close> in
  place of the list is a failing scan.
\<close>

fun populate_loop :: "dm_env \<Rightarrow> (string \<times> udev_device option) list \<Rightarrow> dm \<Rightarrow> (bool \<times> dm) option" where
  "populate_loop e [] st = Some (True, st)"
| "populate_loop e ((path, dev) # ds) st =
     (case dev of
        None \<Rightarrow> Some (False, st)
      | Some dev \<Rightarrow>
          do {
            ssys \<leftarrow> ud_subsystem dev;
            (ok, st) \<leftarrow> add_device e dev path ssys st;
            if ok then populate_loop e ds st else Some (False, st)
          })"

definition initial_populate :: "dm_env \<Rightarrow> (string \<times> udev_device option) list option \<Rightarrow> dm \<Rightarrow> (bool \<times> dm) option" where
  "initial_populate e en st = (case en of None \<Rightarrow> Some (False, st) | Some ds \<Rightarrow> populate_loop e ds st)"

definition notag_subsys :: "string list" where
  "notag_subsys = [''block'', ''net'', ''tty'', ''usb'']"

definition resolve_device :: "dm_env \<Rightarrow> udev_device option \<Rightarrow> bool \<Rightarrow> dm \<Rightarrow> (bool \<times> dm) option" where
  "resolve_device e mon tagged st =
     (case mon of
        None \<Rightarrow> Some (False, st)
      | Some dev \<Rightarrow>
          (case (ud_syspath dev, ud_subsystem dev) of
             (Some sysp, Some ssys) \<Rightarrow>
               if tagged \<and> ssys \<in> set notag_subsys then Some (True, st)
               else do {
                 act \<leftarrow> ud_action dev;
                 if act = ''bind'' \<or> act = ''unbind'' then Some (True, st)
                 else if act = ''remove'' then remove_device e dev sysp st
                 else add_device e dev sysp ssys st
               }
           | _ \<Rightarrow> Some (False, st)))"

end
