(* ===== verification/Devmon_Loop.thy ===== *)
theory Devmon_Loop
  imports Devmon_Dinit
begin

unbundle bit_operations_syntax

text \<open>
  The event loop of the device monitor, \<^verbatim>\<open>src/early/helpers/devmon.cc\<close>: the protocol that a client
  speaks over its connection, one round of the loop, and \<open>main\<close> with its set-up.

  What the system delivers in one round is a record of inputs; a run of the loop is over a list
  of them, and a run that has used them all is still waiting in \<open>poll\<close>.
\<close>

section \<open>Requests of clients\<close>

definition handshake_type :: "string \<Rightarrow> devtype option" where
  "handshake_type msgt =
     (if msgt = ''dev'' then Some DEVICE_DEV
      else if msgt = ''sys'' then Some DEVICE_SYS
      else if msgt = ''netif'' then Some DEVICE_NETIF
      else if msgt = ''mac'' then Some DEVICE_MAC
      else if msgt = ''usb'' then Some DEVICE_USB
      else None)"

text \<open>The handshake: the connection with its type, or \<open>None\<close> for \<open>bad_msg\<close>.\<close>

definition read_handshake :: "dm_env \<Rightarrow> conn \<Rightarrow> dm_call list \<Rightarrow> conn option \<times> dm_call list" where
  "read_handshake e nc l =
     (let l' = l @ [DmRead (cn_fd nc) 8]
      in case de_read e l (cn_fd nc) 8 of
           Inl _ \<Rightarrow> (None, l')
         | Inr hs \<Rightarrow>
             if length hs \<noteq> 8 then (None, l')
             else if hs ! 0 \<noteq> CHR 0xDD \<or> hs ! 7 \<noteq> NUL then (None, l')
             else (case handshake_type (cstr (tl hs)) of
                     None \<Rightarrow> (None, l')
                   | Some t \<Rightarrow> (Some (nc\<lparr>cn_handshake := hs, cn_devtype := Some t\<rparr>), l')))"

text \<open>The length of the value, an \<open>unsigned short\<close> in little-endian order.\<close>

definition u16_of_bytes :: "char \<Rightarrow> char \<Rightarrow> u16" where
  "u16_of_bytes lo hi = of_nat (of_char lo + 256 * of_char hi)"

definition read_datalen :: "dm_env \<Rightarrow> conn \<Rightarrow> dm_call list \<Rightarrow> conn option \<times> dm_call list" where
  "read_datalen e nc l =
     (if cn_datalen nc \<noteq> 0 then (Some nc, l)
      else
        (case de_read e l (cn_fd nc) 2 of
           Inr [lo, hi] \<Rightarrow>
             (if u16_of_bytes lo hi = 0 then None else Some (nc\<lparr>cn_datalen := u16_of_bytes lo hi\<rparr>))
         | _ \<Rightarrow> None,
         l @ [DmRead (cn_fd nc) 2]))"

text \<open>The loop that reads at most \<open>n\<close> more bytes; \<open>False\<close> is \<open>bad_msg\<close>. \<open>errno\<close> is 0 at the end of input.\<close>

fun read_data :: "dm_env \<Rightarrow> int \<Rightarrow> nat \<Rightarrow> string \<Rightarrow> dm_call list \<Rightarrow> bool \<times> string \<times> dm_call list" where
  "read_data e fd 0 s l = (True, s, l)"
| "read_data e fd (Suc n) s l =
     (let l' = l @ [DmRead fd 1]
      in case de_read e l fd 1 of
           Inr [c] \<Rightarrow> read_data e fd n (s @ [c]) l'
         | Inl err \<Rightarrow> (err = EAGAIN, s, l')
         | Inr _ \<Rightarrow> (False, s, l'))"

text \<open>
  The device that is asked for: \<open>None\<close> where the process dies, then \<open>None\<close> for \<open>bad_msg\<close>, and then
  \<open>igot\<close> with \<open>syspath\<close>.
\<close>

definition find_device :: "dm_env \<Rightarrow> conn \<Rightarrow> dm \<Rightarrow> (string option) option option" where
  "find_device e nc st =
     (case cn_devtype nc of
        None \<Rightarrow> Some None
      | Some DEVICE_DEV \<Rightarrow>
          map_option (\<lambda>(igot, sysp). Some (if igot then sysp else None)) (check_devnode e st (cn_datastr nc) None)
      | Some DEVICE_SYS \<Rightarrow>
          Some (Some (if map_sys st (cn_datastr nc) \<noteq> None then Some (cn_datastr nc) else None))
      | Some DEVICE_USB \<Rightarrow>
          Some (Some (if map_sys st (cn_datastr nc) \<noteq> None then Some (cn_datastr nc) else None))
      | Some DEVICE_NETIF \<Rightarrow> Some (Some (map_netif st (cn_datastr nc)))
      | Some DEVICE_MAC \<Rightarrow> Some (Some (map_mac st (cn_datastr nc))))"

text \<open>The status byte; \<open>None\<close> is the exception of \<open>map_sys.at\<close>.\<close>

definition device_status :: "string option \<Rightarrow> dm \<Rightarrow> u8 option" where
  "device_status sysp st =
     (case sysp of
        None \<Rightarrow> Some 0
      | Some k \<Rightarrow> map_option (\<lambda>d. if dv_removed d \<or> dv_processing d then 0 else 1) (map_sys st k))"

text \<open>The answer to a request; the result says whether the connection goes on.\<close>

definition answer :: "dm_env \<Rightarrow> conn \<Rightarrow> dm \<Rightarrow> (bool \<times> dm) option" where
  "answer e nc st =
     do {
       found \<leftarrow> find_device e nc st;
       case found of
         None \<Rightarrow> Some (False, st)
       | Some sysp \<Rightarrow>
           do {
             igot \<leftarrow> device_status sysp st;
             let ok = de_write e (dm_log st) (cn_fd nc);
             Some (ok, st\<lparr>dm_log := dm_log st @ [DmWrite (cn_fd nc) igot]\<rparr>)
           }
     }"

text \<open>The value of a request, and the answer once it has been read.\<close>

definition read_value :: "dm_env \<Rightarrow> nat \<Rightarrow> conn \<Rightarrow> dm \<Rightarrow> (bool \<times> dm) option" where
  "read_value e j nc st =
     (case read_datalen e nc (dm_log st) of
        (None, l) \<Rightarrow> Some (False, st\<lparr>dm_log := l\<rparr>)
      | (Some nc, l) \<Rightarrow>
          if length (cn_datastr nc) \<ge> unat (cn_datalen nc) then Some (False, st\<lparr>dm_log := l\<rparr>)
          else
            case read_data e (cn_fd nc) (unat (cn_datalen nc) - length (cn_datastr nc)) (cn_datastr nc) l of
              (ok, s, l) \<Rightarrow>
                let nc = nc\<lparr>cn_datastr := s\<rparr>;
                    st = st\<lparr>dm_log := l, conns := (conns st)[j := nc]\<rparr>
                in if ok then answer e nc st else Some (False, st))"

text \<open>The position of the connection with a descriptor, made if there is none.\<close>

fun find_conn :: "int \<Rightarrow> conn list \<Rightarrow> nat option" where
  "find_conn fd [] = None"
| "find_conn fd (cn # cns) = (if cn_fd cn = fd then Some 0 else map_option Suc (find_conn fd cns))"

text \<open>Input on the connection at position \<open>j\<close>; \<open>False\<close> is \<open>bad_msg\<close>.\<close>

definition conn_input :: "dm_env \<Rightarrow> nat \<Rightarrow> dm \<Rightarrow> (bool \<times> dm) option" where
  "conn_input e j st =
     (let nc = conns st ! j
      in if cn_datalen nc \<noteq> 0 \<and> length (cn_datastr nc) = unat (cn_datalen nc) then Some (False, st)
         else if hd (cn_handshake nc) = NUL then
           (case read_handshake e nc (dm_log st) of
              (None, l) \<Rightarrow> Some (False, st\<lparr>dm_log := l\<rparr>)
            | (Some nc, l) \<Rightarrow> Some (True, st\<lparr>dm_log := l, conns := (conns st)[j := nc]\<rparr>))
         else read_value e j nc st)"

fun erase_conn :: "int \<Rightarrow> conn list \<Rightarrow> conn list" where
  "erase_conn fd [] = []"
| "erase_conn fd (cn # cns) = (if cn_fd cn = fd then cns else cn # erase_conn fd cns)"

text \<open>The code at \<open>bad_msg\<close>; a connection that hangs up gets there with a null \<open>nc\<close>.\<close>

definition bad_msg :: "nat \<Rightarrow> bool \<Rightarrow> dm \<Rightarrow> dm" where
  "bad_msg i has_nc st =
     (let p = fds st ! i
      in st\<lparr>conns := (if has_nc then erase_conn (pfd_fd p) (conns st) else conns st),
            dm_log := dm_log st @ [DmClose (pfd_fd p)],
            fds := (fds st)[i := p\<lparr>pfd_fd := -1, pfd_revents := 0\<rparr>]\<rparr>)"

definition handle_conn :: "dm_env \<Rightarrow> nat \<Rightarrow> dm \<Rightarrow> dm option" where
  "handle_conn e i st =
     (let p = fds st ! i
      in if pfd_revents p = 0 then Some st
         else if pfd_revents p AND POLLHUP \<noteq> 0 then Some (bad_msg i False st)
         else if pfd_revents p AND POLLIN \<noteq> 0 then
           (let (j, st) =
                  (case find_conn (pfd_fd p) (conns st) of
                     Some j \<Rightarrow> (j, st)
                   | None \<Rightarrow> (length (conns st), st\<lparr>conns := conns st @ [new_conn (pfd_fd p)]\<rparr>))
            in do {
                 (ok, st) \<leftarrow> conn_input e j st;
                 Some (if ok then st else bad_msg i True st)
               })
         else Some st)"

definition conn_loop :: "dm_env \<Rightarrow> nat list \<Rightarrow> dm \<Rightarrow> dm option" where
  "conn_loop e is st = foldo (handle_conn e) is st"

section \<open>A round of the loop\<close>

text \<open>A call of \<open>dinitctl_dispatch\<close>: the events it handled, or its error number.\<close>

datatype dispatch = Dispatched "dinit_ev list" | DispatchError int

definition events_loop :: "dm_env \<Rightarrow> dinit_ev list \<Rightarrow> dm \<Rightarrow> dm option" where
  "events_loop e evs st = foldo (dinit_event e) evs st"

text \<open>The loop around \<open>dinitctl_dispatch\<close>, up to a call that handled nothing; \<open>False\<close> is an error.\<close>

fun dispatch_loop :: "dm_env \<Rightarrow> dispatch list \<Rightarrow> dm \<Rightarrow> (bool \<times> dm) option" where
  "dispatch_loop e [] st = Some (True, st)"
| "dispatch_loop e (DispatchError err # ds) st =
     (if err = EINTR then dispatch_loop e ds st else Some (False, st))"
| "dispatch_loop e (Dispatched evs # ds) st =
     (if evs = [] then Some (True, st)
      else Option.bind (events_loop e evs st) (dispatch_loop e ds))"

definition accept_loop :: "int list \<Rightarrow> dm \<Rightarrow> dm" where
  "accept_loop afds st =
     st\<lparr>fds := fds st @ map (\<lambda>fd. \<lparr>pfd_fd = fd, pfd_events = POLLIN OR POLLHUP, pfd_revents = 0\<rparr>) afds\<rparr>"

definition do_compact :: "dm \<Rightarrow> dm" where
  "do_compact st =
     st\<lparr>fds := filter (\<lambda>p. pfd_fd p \<noteq> -1) (fds st), conns := filter (\<lambda>cn. cn_fd cn \<noteq> -1) (conns st)\<rparr>"

datatype poll_result = PollError int | PollNone | PollSome "u16 list"

text \<open>
  What one round receives: the result of \<open>poll\<close> with the \<open>revents\<close> in the order of the descriptors,
  whether a signal could be read, the connections \<open>accept4\<close> gives before it fails, the devices of
  the two monitors, and the calls of \<open>dinitctl_dispatch\<close>.
\<close>

record dm_round =
  rd_poll :: poll_result
  rd_signal :: bool
  rd_accept :: "int list"
  rd_mon1 :: "udev_device option"
  rd_mon2 :: "udev_device option"
  rd_dispatch :: "dispatch list"

fun set_revents :: "u16 list \<Rightarrow> pollfd list \<Rightarrow> pollfd list" where
  "set_revents rs [] = []"
| "set_revents [] (p # ps) = p\<lparr>pfd_revents := 0\<rparr> # set_revents [] ps"
| "set_revents (r # rs) (p # ps) = p\<lparr>pfd_revents := r\<rparr> # set_revents rs ps"

text \<open>How a round ends: on to the next one, or out of the loop with a status.\<close>

datatype round_end = Again | Exit nat

text \<open>
  The part of a round after the signal descriptor. \<open>udev_step\<close> is one of the two checks on udev, and
  a failing \<open>dinitctl_dispatch\<close> goes to \<open>do_compact\<close>, which leaves the loop at once.
\<close>

definition udev_step :: "dm_env \<Rightarrow> nat \<Rightarrow> udev_device option \<Rightarrow> bool \<Rightarrow> dm \<Rightarrow> (bool \<times> dm) option" where
  "udev_step e ni mon tagged st =
     (if pfd_revents (fds st ! ni) = 0 then Some (True, st) else resolve_device e mon tagged st)"

definition dinit_step :: "dm_env \<Rightarrow> nat \<Rightarrow> dispatch list \<Rightarrow> dm \<Rightarrow> (bool \<times> dm) option" where
  "dinit_step e ni ds st =
     (if pfd_revents (fds st ! ni) = 0 then Some (True, st) else dispatch_loop e ds st)"

definition round_events :: "dm_env \<Rightarrow> dm_round \<Rightarrow> dm \<Rightarrow> (round_end \<times> dm) option" where
  "round_events e rd st =
     do {
       let st = (if pfd_revents (fds st ! 1) \<noteq> 0 then accept_loop (rd_accept rd) st else st);
       (ok, st) \<leftarrow> udev_step e 2 (rd_mon1 rd) False st;
       if \<not> ok then Some (Exit 1, st)
       else do {
         (ok, st) \<leftarrow> udev_step e 3 (rd_mon2 rd) True st;
         if \<not> ok then Some (Exit 1, st)
         else do {
           (ok, st) \<leftarrow> dinit_step e 4 (rd_dispatch rd) st;
           if \<not> ok then Some (Exit 1, st)
           else do {
             st \<leftarrow> conn_loop e [5..<length (fds st)] st;
             Some (Again, do_compact st)
           }
         }
       }
     }"

definition main_round :: "dm_env \<Rightarrow> dm_round \<Rightarrow> dm \<Rightarrow> (round_end \<times> dm) option" where
  "main_round e rd st =
     (case rd_poll rd of
        PollError err \<Rightarrow> if err = EINTR then Some (Again, do_compact st) else Some (Exit 1, st)
      | PollNone \<Rightarrow> Some (Again, do_compact st)
      | PollSome rs \<Rightarrow>
          let st = st\<lparr>fds := set_revents rs (fds st)\<rparr>
          in if pfd_revents (fds st ! 0) = POLLIN then
               if rd_signal rd then Some (Exit 0, st) else Some (Again, do_compact st)
             else round_events e rd st)"

text \<open>The loop, with the status it ends with; \<open>None\<close> while it waits for the next round.\<close>

fun main_loop :: "dm_env \<Rightarrow> dm_round list \<Rightarrow> dm \<Rightarrow> (nat option \<times> dm) option" where
  "main_loop e [] st = Some (None, st)"
| "main_loop e (rd # rds) st =
     do {
       (r, st) \<leftarrow> main_round e rd st;
       case r of Exit n \<Rightarrow> Some (Some n, st) | Again \<Rightarrow> main_loop e rds st
     }"

end
