(* ===== verification/Devmon_Inv.thy ===== *)
theory Devmon_Inv
  imports Devmon_Loop
begin

unbundle bit_operations_syntax

text \<open>
  The invariant of the device monitor and that every operation keeps it and returns: references to
  devices are keys of \<open>map_sys\<close>, connections are in one of the states of the protocol, and the five
  descriptors of the daemon stay at the front of \<open>fds\<close>. The lemmas follow the calls upwards, from the
  functions that write to clients to a run of the event loop.
\<close>

section \<open>The invariant\<close>

text \<open>The devices the callbacks of the requests point to.\<close>

fun cb_keys :: "dm_cb \<Rightarrow> string set" where
  "cb_keys (CbDevLoad k) = {k}"
| "cb_keys (CbDevAdd k) = {k}"
| "cb_keys (CbSubLoad r k) = {k}"
| "cb_keys _ = {}"

definition cb_in :: "string set \<Rightarrow> dm_cb \<Rightarrow> bool" where
  "cb_in K cb \<longleftrightarrow> cb_keys cb \<subseteq> K"

definition ran_in :: "('k \<rightharpoonup> 'v) \<Rightarrow> 'v set \<Rightarrow> bool" where
  "ran_in m K \<longleftrightarrow> ran m \<subseteq> K"

text \<open>Every reference to a device, from a table or a callback, is a key in \<open>K\<close>.\<close>

definition refs_ok :: "string set \<Rightarrow> dm \<Rightarrow> bool" where
  "refs_ok K st \<longleftrightarrow>
     ran_in (map_dev st) K \<and> ran_in (map_netif st) K \<and> ran_in (map_mac st) K \<and>
     ran_in (map_usb st) K \<and> ran_in (map_svcdev st) K \<and> list_all (cb_in K) (dm_reqs st)"

text \<open>The states of a connection: nothing read, the handshake read, and part of the value read.\<close>

definition typed_by :: "string \<Rightarrow> devtype option \<Rightarrow> bool" where
  "typed_by hs t \<longleftrightarrow> t \<noteq> None \<and> handshake_type (cstr (tl hs)) = t"

definition conn_ok :: "conn \<Rightarrow> bool" where
  "conn_ok c \<longleftrightarrow>
     length (cn_handshake c) = 8 \<and> length (cn_datastr c) \<le> unat (cn_datalen c) \<and>
     (if hd (cn_handshake c) = NUL then cn_devtype c = None \<and> cn_datalen c = 0
      else hd (cn_handshake c) = CHR 0xDD \<and> typed_by (cn_handshake c) (cn_devtype c))"

text \<open>
  The descriptors of the daemon itself come first, in the loop those of the signals, the control
  socket, the two monitors and dinit; no connection has one of them.
\<close>

definition fds_wf :: "int list \<Rightarrow> dm \<Rightarrow> bool" where
  "fds_wf five st \<longleftrightarrow>
     map pfd_fd (take (length five) (fds st)) = five \<and>
     pfd_fd ` set (drop (length five) (fds st)) \<inter> set five = {} \<and> conn_fds (conns st) \<inter> set five = {}"

definition mid :: "int list \<Rightarrow> string set \<Rightarrow> (string \<rightharpoonup> device) \<Rightarrow> dm \<Rightarrow> bool" where
  "mid five K M st \<longleftrightarrow> refs_ok K st \<and> map_sys st = M \<and> fds_wf five st \<and> list_all conn_ok (conns st)"

definition dm_inv :: "int list \<Rightarrow> dm \<Rightarrow> bool" where
  "dm_inv five st \<longleftrightarrow>
     mid five (dom (map_sys st)) (map_sys st) st \<and> (\<forall>k d. map_sys st k = Some d \<longrightarrow> dv_syspath d = k)"

section \<open>Telling clients keeps it\<close>

lemma conn_told_ok: "conn_told c c' \<Longrightarrow> conn_ok c' = conn_ok c"
  unfolding conn_told_def by (elim disjE) (simp_all add: conn_ok_def)

lemma told_conn_ok: "list_all2 conn_told cs cs' \<Longrightarrow> list_all conn_ok cs \<Longrightarrow> list_all conn_ok cs'"
  by (induction rule: list_all2_induct) (auto simp: conn_told_ok)

lemma told_pfds:
  assumes "list_all2 (pfd_told (- set five)) ps ps'"
  shows "pfd_fd ` set ps \<subseteq> set five \<Longrightarrow> map pfd_fd ps' = map pfd_fd ps"
    and "-1 \<notin> set five \<Longrightarrow> pfd_fd ` set ps \<inter> set five = {} \<Longrightarrow> pfd_fd ` set ps' \<inter> set five = {}"
  using assms by (induction rule: list_all2_induct) (auto simp: pfd_told_def)

lemma told_fds_wf:
  assumes t: "told (- set five) st st'" and w: "fds_wf five st"
  shows "fds_wf five st'"
proof -
  have all: "list_all2 (pfd_told (- set five)) (fds st) (fds st')"
    and d: "conn_fds (conns st') \<inter> set five = {}"
    using t by (auto simp: told_def)
  have five: "map pfd_fd (take (length five) (fds st)) = five" using w by (simp add: fds_wf_def)
  then have *: "pfd_fd ` set (take (length five) (fds st)) \<subseteq> set five"
    by (metis list.set_map order_refl)
  have "-1 \<notin> set five" using d by (auto simp: conn_fds_def)
  then show ?thesis
    using w d told_pfds(1) [OF list_all2_takeI [OF all, of "length five"] *]
      told_pfds(2) [OF list_all2_dropI [OF all, of "length five"]] five
    by (simp add: fds_wf_def)
qed

lemma told_mid: "told (- set five) st st' \<Longrightarrow> mid five K M st \<Longrightarrow> mid five K M st'"
  using told_fds_wf [of five st st'] told_conn_ok [of "conns st" "conns st'"]
  by (simp add: mid_def refs_ok_def told_def)

lemma mid_told: "mid five K M st \<Longrightarrow> told (- set five) st st"
  by (rule told_refl) (auto simp: mid_def fds_wf_def)

lemma yields_mid: "mid five K M st \<Longrightarrow> yields m (told (- set five) st) \<Longrightarrow> yields m (mid five K M)"
  by (auto intro: yields_mono told_mid)

lemma write_gen_mid: "mid five K M st \<Longrightarrow> yields (write_gen e t b n st) (mid five K M)"
  by (rule yields_mid [OF _ write_gen_told [OF mid_told]])

lemma write_dev_mid: "mem_ok e \<Longrightarrow> mid five K M st \<Longrightarrow> yields (write_dev e b n st) (mid five K M)"
  by (rule yields_mid [OF _ write_dev_told [OF _ mid_told]])

lemma ready_mid: "mem_ok e \<Longrightarrow> mid five K M st \<Longrightarrow> yields (ready e b d st) (mid five K M)"
  by (rule yields_mid [OF _ ready_told [OF _ mid_told]])

section \<open>Member functions keep it\<close>

lemma ran_emplace: "ran (emplace m k v) \<subseteq> insert v (ran m)"
  by (auto simp: emplace_def ran_def split: option.splits if_splits)

lemma ran_erase: "ran (m(k := None)) \<subseteq> ran m"
  by (auto simp: ran_def)

lemma mid_ran:
  assumes "mid five K M st"
  shows "ran_in (map_dev st) K" and "ran_in (map_netif st) K" and "ran_in (map_mac st) K"
    and "ran_in (map_usb st) K" and "ran_in (map_svcdev st) K" and "list_all (cb_in K) (dm_reqs st)"
  using assms by (simp_all add: mid_def refs_ok_def)

lemma mid_upd:
  assumes "mid five K M st"
  shows "ran_in m K \<Longrightarrow> mid five K M (st\<lparr>map_dev := m\<rparr>)"
    and "ran_in m K \<Longrightarrow> mid five K M (st\<lparr>map_netif := m\<rparr>)"
    and "ran_in m K \<Longrightarrow> mid five K M (st\<lparr>map_mac := m\<rparr>)"
    and "ran_in m' K \<Longrightarrow> mid five K M (st\<lparr>map_usb := m'\<rparr>)"
    and "ran_in m' K \<Longrightarrow> mid five K M (st\<lparr>map_svcdev := m'\<rparr>)"
    and "mid five K M (st\<lparr>dm_log := l\<rparr>)"
    and "list_all (cb_in K) rq \<Longrightarrow> mid five K M (st\<lparr>dm_reqs := rq\<rparr>)"
  using assms by (simp_all add: mid_def refs_ok_def fds_wf_def)

lemma ran_in_emplace: "ran_in m K \<Longrightarrow> v \<in> K \<Longrightarrow> ran_in (emplace m k v) K"
  using ran_emplace [of m k v] by (auto simp: ran_in_def)

lemma ran_in_erase: "ran_in m K \<Longrightarrow> ran_in (m(k := None)) K"
  using ran_erase [of m k] by (auto simp: ran_in_def)

lemma ran_in_upd: "ran_in m K \<Longrightarrow> v \<in> K \<Longrightarrow> ran_in (m(k \<mapsto> v)) K"
  by (auto simp: ran_in_def ran_def)

lemma cb_in_mono: "list_all (cb_in K) rq \<Longrightarrow> K \<subseteq> K' \<Longrightarrow> list_all (cb_in K') rq"
  by (auto simp: list_all_iff cb_in_def)

lemma ran_in_mono: "ran_in m K \<Longrightarrow> K \<subseteq> K' \<Longrightarrow> ran_in m K'"
  by (auto simp: ran_in_def)

lemmas mid_intros = mid_upd ran_in_emplace ran_in_erase ran_in_upd mid_ran(1-5)

lemma device_init_mid:
  assumes "mid five K M st" and "dv_syspath d \<in> K"
  shows "case device_init dev n d st of (d', st') \<Rightarrow> mid five K M st' \<and> dv_syspath d' = dv_syspath d"
  using assms
  by (auto simp: device_init_def init_dev_def init_net_def Let_def split: option.splits intro!: mid_intros)

text \<open>The postcondition of the member functions, and of \<open>process\<close>.\<close>

abbreviation (input) member_post where
  "member_post five K M d \<equiv> (\<lambda>(d', st'). mid five K M st' \<and> dv_syspath d' = dv_syspath d)"

abbreviation (input) process_post where
  "process_post five K M d \<equiv> (\<lambda>(ok :: bool, d', st'). mid five K M st' \<and> dv_syspath d' = dv_syspath d)"

lemma set_dev_mid:
  "mem_ok e \<Longrightarrow> mid five K M st \<Longrightarrow> dv_syspath d \<in> K \<Longrightarrow> yields (set_dev e n d st) (member_post five K M d)"
  unfolding set_dev_def
  by (auto simp: Let_def intro!: yields_bind [OF write_dev_mid] mid_intros split: option.splits)

lemma set_ifname_mid:
  "mid five K M st \<Longrightarrow> dv_syspath d \<in> K \<Longrightarrow> yields (set_ifname e n d st) (member_post five K M d)"
  unfolding set_ifname_def
  by (auto simp: Let_def intro!: yields_bind [OF write_gen_mid] mid_intros split: option.splits)

lemma set_mac_mid:
  "mid five K M st \<Longrightarrow> dv_syspath d \<in> K \<Longrightarrow> yields (set_mac e n d st) (member_post five K M d)"
  unfolding set_mac_def
  by (auto simp: Let_def intro!: yields_bind [OF write_gen_mid] mid_intros split: option.splits)

lemma device_set_mid:
  assumes "mem_ok e" and "mid five K M st" and "dv_syspath d \<in> K"
  shows "yields (device_set e dev n d st) (member_post five K M d)"
proof -
  have "yields (set_ifname e i d st \<bind> (\<lambda>(d, st). set_mac e a d st)) (member_post five K M d)" for i a
    using assms by (auto intro!: yields_bind [OF set_ifname_mid] yields_mono [OF set_mac_mid])
  then show ?thesis
    unfolding device_set_def
    using assms set_dev_mid [OF assms]
    by (intro yields_bind [of _ "member_post five K M d"]) auto
qed

lemma device_remove_mid:
  "mid five K M st \<Longrightarrow> case device_remove d st of (d', st') \<Rightarrow> mid five K M st' \<and> dv_syspath d' = dv_syspath d"
  by (auto simp: device_remove_def Let_def intro!: mid_intros)

section \<open>Requests keep it\<close>

lemma issue_mid:
  "issue e c cb st = (ok, st') \<Longrightarrow> mid five K M st \<Longrightarrow> cb_in K cb \<Longrightarrow> mid five K M st'"
  using mid_ran(6) [of five K M st] by (auto simp: issue_def Let_def intro!: mid_upd)

lemmas async_defs = load_async_def depend_async_def close_async_def

lemma close_device_svc_mid: "mid five K M st \<Longrightarrow> close_device_svc e d st = (ok, st') \<Longrightarrow> mid five K M st'"
  by (auto simp: close_device_svc_def async_defs cb_in_def split: option.splits elim!: issue_mid)

lemma process_mid:
  assumes "mem_ok e" and "mid five K M st" and "dv_syspath d \<in> K"
  shows "yields (process e d st) (process_post five K M d)"
proof -
  obtain ok st1 where c: "close_device_svc e d st = (ok, st1)" by fastforce
  have m: "mid five K M st1" using close_device_svc_mid [OF assms(2) c] .
  have load: "mid five K M st3" if "mid five K M st2"
    "load_async e s f (CbDevLoad (dv_syspath d)) st2 = (ok2, st3)" for s f ok2 st2 st3
    using that assms(3) by (auto simp: async_defs cb_in_def elim!: issue_mid)
  show ?thesis
    unfolding process_def c
    using assms m
    by (auto simp: Let_def split: bool.splits prod.splits intro!: yields_bind [OF ready_mid] dest: load)
qed

lemma handle_device_dinit_mid:
  assumes "mem_ok e" and "mid five K M st" and "dv_syspath d \<in> K"
  shows "yields (handle_device_dinit e dev d st) (process_post five K M d)"
  unfolding handle_device_dinit_def Let_def
  using assms
  by (auto intro: yields_mono [OF ready_mid] yields_mono [OF process_mid])

section \<open>Devices of udev\<close>

lemma mid_weaken: "mid five K M st \<Longrightarrow> K \<subseteq> K' \<Longrightarrow> mid five K' M st"
  by (auto simp: mid_def refs_ok_def intro: ran_in_mono cb_in_mono)

definition keyed :: "string \<Rightarrow> device \<Rightarrow> bool" where
  "keyed k d \<longleftrightarrow> dv_syspath d = k"

lemma mid_put: "mid five K M st \<Longrightarrow> mid five K (M(k \<mapsto> d)) (put_dev k d st)"
  by (simp add: mid_def put_dev_def refs_ok_def fds_wf_def)

lemma dm_inv_put:
  assumes "mid five K M st" and "K \<subseteq> insert k (dom M)"
    and "\<forall>k d. M k = Some d \<longrightarrow> dv_syspath d = k" and "dv_syspath d = k"
  shows "dm_inv five (put_dev k d st)"
  using mid_weaken [OF mid_put [OF assms(1), of k d], of "dom (M(k \<mapsto> d))"] assms
  by (auto simp: dm_inv_def put_dev_def mid_def)

lemma dm_invD:
  assumes "dm_inv five st"
  shows "mid five (dom (map_sys st)) (map_sys st) st"
    and "map_sys st k = Some d \<Longrightarrow> dv_syspath d = k"
  using assms by (auto simp: dm_inv_def)

lemma mid_sys: "mid five K M st \<Longrightarrow> map_sys st = M"
  by (simp add: mid_def)

lemma add_new_inv:
  assumes "mem_ok e" and "dm_inv five st"
  shows "yields (add_new e dev k ssys n d st) (\<lambda>(ok, st'). dm_inv five st')"
proof -
  let ?K = "insert k (dom (map_sys st))" and ?M = "map_sys st"
  obtain d1 st1 where i: "device_init dev n (d\<lparr>dv_syspath := k, dv_subsys := ssys\<rparr>) st = (d1, st1)" by fastforce
  have "mid five ?K ?M st" by (rule mid_weaken [OF dm_invD(1) [OF assms(2)]]) auto
  from device_init_mid [OF this, of "d\<lparr>dv_syspath := k, dv_subsys := ssys\<rparr>" dev n]
  have m: "mid five ?K ?M st1" "dv_syspath d1 = k" by (auto simp: i)
  let ?st2 = "if n \<noteq> 0 then st1\<lparr>map_usb := (map_usb st1)(n \<mapsto> k)\<rparr> else st1"
  have "mid five ?K ?M ?st2" using m by (auto intro!: mid_intros)
  from handle_device_dinit_mid [OF assms(1) this, of d1 dev]
  have h: "yields (handle_device_dinit e dev d1 ?st2) (process_post five ?K ?M d1)" by (simp add: m)
  show ?thesis
    unfolding add_new_def i Let_def prod.case
    by (rule yields_bind [OF h]) (use m dm_invD(2) [OF assms(2)] in \<open>auto intro!: dm_inv_put\<close>)
qed

lemma add_device_inv:
  assumes "mem_ok e" and "dm_inv five st"
  shows "yields (add_device e dev sysp ssys st) (\<lambda>(ok, st'). dm_inv five st')"
proof -
  let ?K = "dom (map_sys st)" and ?M = "map_sys st"
  have set: "yields (device_set e dev n d st \<bind> (\<lambda>(d, st). handle_device_dinit e dev d st \<bind>
      (\<lambda>(ok, d, st). Some (ok, put_dev k d st)))) (\<lambda>(ok, st'). dm_inv five st')"
    if "map_sys st k = Some d" for k d n
  proof -
    have k: "dv_syspath d = k" "k \<in> ?K" using that dm_invD(2) [OF assms(2)] by auto
    have h: "yields (handle_device_dinit e dev d' st') (process_post five ?K ?M d')"
      if "mid five ?K ?M st'" "dv_syspath d' = dv_syspath d" for d' st'
      using handle_device_dinit_mid [OF assms(1) that(1), of d' dev] that k by simp
    show ?thesis
      using k dm_invD(2) [OF assms(2)]
      by (auto intro!: yields_bind [OF device_set_mid [OF assms(1) dm_invD(1) [OF assms(2)]]]
          yields_bind [OF h] dm_inv_put)
  qed
  show ?thesis
    unfolding add_device_def
    using set add_new_inv [OF assms] assms(2) by (auto split: option.splits)
qed

lemma put_dev_commute: "(put_dev k d st)\<lparr>map_usb := m\<rparr> = put_dev k d (st\<lparr>map_usb := m\<rparr>)"
  by (simp add: put_dev_def)

lemma remove_usb_inv:
  assumes "dm_inv five st"
  shows "case remove_usb n sysp st of (k, st') \<Rightarrow> dm_inv five st'"
proof -
  let ?K = "dom (map_sys st)" and ?M = "map_sys st"
  note m = dm_invD(1) [OF assms]
  have "dm_inv five (put_dev k ((dev_at st k)\<lparr>dv_devset := X\<rparr>) (st\<lparr>map_usb := (map_usb st)(n := None)\<rparr>))"
    if "map_usb st n = Some k" for k X
  proof (rule dm_inv_put)
    show "mid five ?K ?M (st\<lparr>map_usb := (map_usb st)(n := None)\<rparr>)"
      using m by (auto intro!: mid_intros)
    have "k \<in> ?K" using mid_ran(4) [OF m] that by (auto simp: ran_in_def ran_def)
    then show "dv_syspath ((dev_at st k)\<lparr>dv_devset := X\<rparr>) = k"
      using dm_invD(2) [OF assms] by (auto simp: dev_at_def)
  qed (use dm_invD(2) [OF assms] in auto)
  then show ?thesis
    using assms by (auto simp: remove_usb_def Let_def put_dev_commute split: option.splits)
qed

lemma remove_device_inv:
  assumes "mem_ok e" and "dm_inv five st"
  shows "yields (remove_device e dev sysp st) (\<lambda>(ok, st'). dm_inv five st')"
proof -
  obtain k st1 where u: "remove_usb (ud_devnum dev) sysp st = (k, st1)" by fastforce
  have i: "dm_inv five st1" using remove_usb_inv [OF assms(2), of "ud_devnum dev" sysp] by (simp add: u)
  let ?K = "dom (map_sys st1)" and ?M = "map_sys st1"
  have rest: "yields (handle_device_dinit e dev (d\<lparr>dv_removed := True\<rparr>) st1 \<bind> (\<lambda>(ok, d, st).
      if \<not> ok then Some (False, put_dev k d st)
      else let (d, st) = device_remove d st in Some (True, put_dev k d st))) (\<lambda>(ok, st'). dm_inv five st')"
    if "map_sys st1 k = Some d" for k d
  proof -
    have k: "dv_syspath d = k" "k \<in> ?K" using that dm_invD(2) [OF i] by auto
    have h: "yields (handle_device_dinit e dev (d\<lparr>dv_removed := True\<rparr>) st1)
        (\<lambda>(ok, d', st'). mid five ?K ?M st' \<and> keyed k d')"
      using handle_device_dinit_mid [OF assms(1) dm_invD(1) [OF i], of "d\<lparr>dv_removed := True\<rparr>" dev] k
      by (simp add: keyed_def)
    have p: "dm_inv five (put_dev k d' st')" if "mid five ?K ?M st'" "keyed k d'" for d' st'
      using that dm_invD(2) [OF i] by (auto simp: keyed_def intro: dm_inv_put)
    have r: "dm_inv five (put_dev k d2 st2)"
      if "device_remove d' st' = (d2, st2)" "mid five ?K ?M st'" "keyed k d'" for d' st' d2 st2
      using device_remove_mid [OF that(2), of d'] that p [of st2 d2] by (simp add: keyed_def)
    show ?thesis
      by (rule yields_bind [OF h]) (auto intro: p split: prod.splits dest: r)
  qed
  show ?thesis
    unfolding remove_device_def u using rest i by (auto split: option.splits)
qed

text \<open>What udev promises of an enumeration: a device has a subsystem.\<close>

definition entry_ok :: "string \<times> udev_device option \<Rightarrow> bool" where
  "entry_ok pd = (case snd pd of None \<Rightarrow> True | Some d \<Rightarrow> ud_subsystem d \<noteq> None)"

lemma populate_loop_inv:
  assumes "mem_ok e" and "dm_inv five st"
    and "list_all entry_ok ds"
  shows "yields (populate_loop e ds st) (\<lambda>(ok, st'). dm_inv five st')"
  using assms(2,3)
proof (induction ds arbitrary: st)
  case (Cons pd ds)
  then show ?case
    using assms(1)
    by (cases pd) (auto simp: entry_ok_def split: option.splits intro!: yields_bind [OF add_device_inv])
qed simp

text \<open>What udev promises: an event names its action.\<close>

definition udev_ok :: "udev_device option \<Rightarrow> bool" where
  "udev_ok mon = (case mon of None \<Rightarrow> True | Some dev \<Rightarrow> ud_action dev \<noteq> None)"

lemma resolve_device_inv:
  assumes "mem_ok e" and "dm_inv five st" and "udev_ok mon"
  shows "yields (resolve_device e mon tagged st) (\<lambda>(ok, st'). dm_inv five st')"
  using assms add_device_inv [OF assms(1,2)] remove_device_inv [OF assms(1,2)]
  by (auto simp: resolve_device_def udev_ok_def split: option.splits)

section \<open>Callbacks keep it\<close>

lemma dm_inv_key: "dm_inv five st \<Longrightarrow> k \<in> dom (map_sys st) \<Longrightarrow> dv_syspath (dev_at st k) = k"
  using dm_invD(2) by (fastforce simp: dev_at_def)

lemma dm_inv_put_at:
  assumes "dm_inv five st" and "k \<in> dom (map_sys st)" and "dv_syspath d = k"
  shows "dm_inv five (put_dev k d st)"
  using dm_inv_put [OF dm_invD(1) [OF assms(1)]] assms dm_invD(2) [OF assms(1)] by auto

lemma dm_inv_reqs:
  "dm_inv five st \<Longrightarrow> list_all (cb_in (dom (map_sys st))) rq \<Longrightarrow> dm_inv five (st\<lparr>dm_log := l, dm_reqs := rq\<rparr>)"
  by (simp add: dm_inv_def mid_def refs_ok_def fds_wf_def)

lemma dm_inv_abort: "dm_inv five st \<Longrightarrow> dm_inv five (dinit_abort st)"
  by (simp add: dm_inv_def mid_def refs_ok_def fds_wf_def dinit_abort_def)

lemma issue_sys: "issue e c cb st = (ok, st') \<Longrightarrow> map_sys st' = map_sys st"
  by (auto simp: issue_def Let_def)

lemma issue_inv:
  "issue e c cb st = (ok, st') \<Longrightarrow> dm_inv five st \<Longrightarrow> cb_in (dom (map_sys st)) cb \<Longrightarrow> dm_inv five st'"
  by (auto simp: dm_inv_def issue_sys intro: issue_mid)

lemma process_or_abort_inv:
  assumes "mem_ok e" and "dm_inv five st" and "k \<in> dom (map_sys st)"
  shows "yields (process_or_abort e k st) (dm_inv five)"
proof -
  note key = dm_inv_key [OF assms(2,3)]
  have p: "yields (process e (dev_at st k) st)
      (\<lambda>(ok, d', st'). mid five (dom (map_sys st)) (map_sys st) st' \<and> keyed k d')"
    using process_mid [OF assms(1) dm_invD(1) [OF assms(2)], of "dev_at st k"] assms(3) key
    by (simp add: keyed_def)
  have put: "dm_inv five (put_dev k d' st')"
    if "mid five (dom (map_sys st)) (map_sys st) st'" "keyed k d'" for d' st'
    using that dm_invD(2) [OF assms(2)] by (auto simp: keyed_def intro: dm_inv_put)
  show ?thesis
    unfolding process_or_abort_def Let_def
    by (rule yields_bind [OF p]) (clarsimp simp: put dm_inv_abort)
qed

lemma svc_done_inv:
  assumes "mem_ok e" and "dm_inv five st" and "k \<in> dom (map_sys st)"
  shows "yields (svc_done e k st) (dm_inv five)"
  using assms dm_inv_key [OF assms(2,3)]
  by (auto simp: svc_done_def Let_def intro!: process_or_abort_inv dm_inv_put_at) (simp add: put_dev_def)

lemma svcdev_key: "dm_inv five st \<Longrightarrow> map_svcdev st h = Some k \<Longrightarrow> k \<in> dom (map_sys st)"
  using mid_ran(5) [OF dm_invD(1), of five st] by (auto simp: ran_in_def ran_def)

lemma dm_inv_svcdev:
  "dm_inv five st \<Longrightarrow> ran_in m (dom (map_sys st)) \<Longrightarrow> dm_inv five (st\<lparr>map_svcdev := m\<rparr>)"
  by (simp add: dm_inv_def mid_def refs_ok_def fds_wf_def)

lemma handle_dinit_event_inv:
  assumes "mem_ok e" and "dm_inv five st"
  shows "yields (handle_dinit_event e h st) (dm_inv five)"
proof (cases "map_svcdev st h")
  case None
  then show ?thesis using assms by (simp add: handle_dinit_event_def)
next
  case (Some k)
  have erased: "dm_inv five (st'\<lparr>map_svcdev := (map_svcdev st')(h := None)\<rparr>)" if "dm_inv five st'" for st'
    using that mid_ran(5) [OF dm_invD(1) [OF that]] by (auto intro: dm_inv_svcdev ran_in_erase)
  have close: "dm_inv five st''" if "close_async e h (st'\<lparr>map_svcdev := (map_svcdev st')(h := None)\<rparr>) = (ok, st'')"
    "dm_inv five st'" for st' st'' ok
    using that(1) erased [OF that(2)] by (auto simp: async_defs cb_in_def elim: issue_inv)
  show ?thesis
    unfolding handle_dinit_event_def Some option.case Let_def
    by (rule yields_bind [OF svc_done_inv [OF assms svcdev_key [OF assms(2) Some]]])
      (auto split: prod.splits bool.splits intro: dm_inv_abort dest: close)
qed

lemma subsvc_load_inv:
  assumes "mem_ok e" and "dm_inv five st" and "k \<in> dom (map_sys st)"
  shows "yields (dinit_subsvc_load_cb_base e k removal r st) (dm_inv five)"
proof -
  let ?nw = "removal \<or> rp_started r"
  let ?st = "if ?nw then st else st\<lparr>map_svcdev := emplace (map_svcdev st) (rp_handle r) k\<rparr>"
  have st: "dm_inv five ?st" "map_sys ?st = map_sys st"
    using assms mid_ran(5) [OF dm_invD(1) [OF assms(2)]]
    by (auto intro!: dm_inv_svcdev ran_in_emplace)
  obtain ok st' where dep: "depend_async e (dv_device_svc (dev_at ?st k)) (rp_handle r) removal (\<not> removal)
      (if ?nw then CbDepNoWake (rp_handle r) else CbDep (rp_handle r)) ?st = (ok, st')"
    by fastforce
  have st': "dm_inv five st'"
    by (rule issue_inv [OF dep [unfolded async_defs] st(1)]) (simp add: cb_in_def)
  have "map_sys st' = map_sys st" using issue_sys [OF dep [unfolded async_defs]] st(2) by simp
  then have "k \<in> dom (map_sys st')" using assms(3) by simp
  then have "yields (svc_done e k st') (dm_inv five)"
    using st' by (simp add: svc_done_inv [OF assms(1)])
  then show ?thesis
    unfolding dinit_subsvc_load_cb_base_def Let_def dep
    using assms st' by (simp add: svc_done_inv dm_inv_abort split: bool.splits)
qed

lemma put_at_inv:
  assumes "dm_inv five st" and "k \<in> dom (map_sys st)" and "\<And>d. dv_syspath (f d) = dv_syspath d"
  shows "dm_inv five (put_dev k (f (dev_at st k)) st)"
  using dm_inv_key [OF assms(1,2)] assms by (auto intro!: dm_inv_put_at)

lemma load_loop_inv:
  assumes "dm_inv five st" and "k \<in> dom (map_sys st)"
  shows "case load_loop e k del svcs st of (ok, st') \<Rightarrow> dm_inv five st' \<and> k \<in> dom (map_sys st')"
  using assms
proof (induction svcs arbitrary: st)
  case (Cons svc svcs)
  obtain ok st1 where l: "load_async e svc del (CbSubLoad del k) st = (ok, st1)" by fastforce
  have st1: "dm_inv five st1" "k \<in> dom (map_sys st1)"
    using l Cons.prems issue_sys [of e _ _ st ok st1]
    by (auto simp: async_defs cb_in_def elim!: issue_inv)
  let ?st2 = "put_dev k ((dev_at st1 k)\<lparr>dv_pending_svcs := dv_pending_svcs (dev_at st1 k) + 1\<rparr>) st1"
  have "dm_inv five ?st2"
    using put_at_inv [OF st1, of "\<lambda>d. d\<lparr>dv_pending_svcs := dv_pending_svcs d + 1\<rparr>"] by simp
  moreover have "k \<in> dom (map_sys ?st2)" by (simp add: put_dev_def)
  ultimately show ?case
    using Cons.IH [of ?st2] st1 dm_inv_abort [OF st1(1)]
    by (cases ok) (auto simp: l Let_def dinit_abort_def)
qed simp

lemma devsvc_add_inv:
  assumes "dm_inv five st" and "k \<in> dom (map_sys st)"
  shows "dm_inv five (dinit_devsvc_add_cb e k st)"
proof -
  let ?st = "put_dev k ((dev_at st k)\<lparr>dv_pending_svcs := 0\<rparr>) st"
  have 1: "dm_inv five ?st" using put_at_inv [OF assms, of "\<lambda>d. d\<lparr>dv_pending_svcs := 0\<rparr>"] by simp
  have 2: "k \<in> dom (map_sys ?st)" by (simp add: put_dev_def)
  obtain ok st1 where l: "load_loop e k True (dv_dsvcset (dev_at ?st k)) ?st = (ok, st1)" by fastforce
  have st1: "dm_inv five st1" "k \<in> dom (map_sys st1)"
    using load_loop_inv [OF 1 2, of e True "dv_dsvcset (dev_at ?st k)"] unfolding l by auto
  have "dm_inv five (snd (load_loop e k False (dv_psvcset (dev_at st1 k)) st1))"
    using load_loop_inv [OF st1, of e False "dv_psvcset (dev_at st1 k)"] by (simp add: case_prod_beta)
  then show ?thesis
    unfolding dinit_devsvc_add_cb_def Let_def l using st1 by (cases ok) simp_all
qed

lemma devsvc_load_inv:
  assumes "mem_ok e" and "dm_inv five st" and "k \<in> dom (map_sys st)"
  shows "yields (dinit_devsvc_load_cb e k r st) (dm_inv five)"
proof -
  let ?d = "(dev_at st k)\<lparr>dv_device_svc := Some (rp_handle r)\<rparr>"
  let ?st = "put_dev k ?d st"
  have 1: "dm_inv five ?st" using put_at_inv [OF assms(2,3), of "\<lambda>d. d\<lparr>dv_device_svc := Some (rp_handle r)\<rparr>"] by simp
  have 2: "k \<in> dom (map_sys ?st)" by (simp add: put_dev_def)
  obtain ok st' where dep: "depend_async e (Some (de_system e)) (rp_handle r) (dv_removal ?d) (\<not> dv_removal ?d)
      (CbDevAdd k) ?st = (ok, st')"
    by fastforce
  have "dm_inv five st'"
    by (rule issue_inv [OF dep [unfolded async_defs] 1]) (use 2 in \<open>simp add: cb_in_def\<close>)
  then show ?thesis
    unfolding dinit_devsvc_load_cb_def Let_def dep
    using 1 process_or_abort_inv [OF assms(1) 1 2] by (simp add: dm_inv_abort)
qed

lemma dep_cbs_inv: "dm_inv five st \<Longrightarrow> dm_inv five (dep_cb e h st)" "dm_inv five st \<Longrightarrow> dm_inv five (dep_nowake_cb e h st)"
  by (auto simp: dep_cb_def dep_nowake_cb_def async_defs cb_in_def split: prod.splits
      intro!: dm_inv_abort elim!: issue_inv)

lemma run_cb_inv:
  assumes "mem_ok e" and "dm_inv five st" and "cb_in (dom (map_sys st)) cb"
  shows "yields (run_cb e cb r st) (dm_inv five)"
  using assms
  by (cases cb) (simp_all add: cb_in_def dep_cbs_inv devsvc_add_inv devsvc_load_inv subsvc_load_inv)

lemma dinit_event_inv:
  assumes "mem_ok e" and "dm_inv five st"
  shows "yields (dinit_event e ev st) (dm_inv five)"
proof (cases ev)
  case (EvReply i r)
  show ?thesis
  proof (cases "i < length (dm_reqs st)")
    case True
    let ?rq = "take i (dm_reqs st) @ drop (Suc i) (dm_reqs st)"
    have all: "list_all (cb_in (dom (map_sys st))) (dm_reqs st)" by (rule mid_ran(6) [OF dm_invD(1) [OF assms(2)]])
    have "list_all (cb_in (dom (map_sys st))) ?rq"
      using all by (auto simp: list_all_iff dest: in_set_dropD in_set_takeD)
    then have "dm_inv five (st\<lparr>dm_reqs := ?rq\<rparr>)"
      using dm_inv_reqs [OF assms(2), of ?rq "dm_log st"] by simp
    moreover have "cb_in (dom (map_sys st)) (dm_reqs st ! i)" using all True by (simp add: list_all_length)
    ultimately show ?thesis using EvReply True assms(1) by (simp add: dinit_event_def run_cb_inv)
  qed (simp add: EvReply dinit_event_def assms)
next
  case (EvService h)
  then show ?thesis by (simp add: dinit_event_def handle_dinit_event_inv assms)
qed

section \<open>Connections keep it\<close>

lemma read_handshake_ok:
  assumes "read_handshake e nc l = (Some nc', l')" and "conn_ok nc" and "hd (cn_handshake nc) = NUL"
  shows "conn_ok nc' \<and> cn_fd nc' = cn_fd nc"
proof -
  obtain hs t where nc': "nc' = nc\<lparr>cn_handshake := hs, cn_devtype := Some t\<rparr>"
    and hs: "length hs = 8" "hs ! 0 = CHR 0xDD" "handshake_type (cstr (tl hs)) = Some t"
    using assms(1) by (auto simp: read_handshake_def Let_def split: sum.splits if_splits option.splits)
  have "hd hs = CHR 0xDD" using hs by (cases hs) auto
  then show ?thesis using hs assms(2,3) by (auto simp: nc' conn_ok_def typed_by_def)
qed

lemma read_datalen_ok:
  assumes "read_datalen e nc l = (Some nc', l')" and "conn_ok nc" and "hd (cn_handshake nc) \<noteq> NUL"
  shows "conn_ok nc' \<and> cn_fd nc' = cn_fd nc \<and> cn_handshake nc' = cn_handshake nc"
  using assms
  by (auto simp: read_datalen_def conn_ok_def split: if_splits sum.splits list.splits)

lemma read_data_length: "read_data e fd n s l = (ok, s', l') \<Longrightarrow> length s' \<le> length s + n"
  by (induction e fd n s l arbitrary: ok s' l' rule: read_data.induct)
    (fastforce simp: Let_def split: sum.splits list.splits)+

lemma device_status_total: "dm_inv five st \<Longrightarrow> set_option sysp \<subseteq> dom (map_sys st) \<Longrightarrow> yields (device_status sysp st) (\<lambda>_. True)"
  by (auto simp: device_status_def split: option.splits)

lemma find_device_total:
  assumes "mem_ok e" and "dm_inv five st" and "cn_devtype nc \<noteq> None"
  shows "yields (find_device e nc st) (\<lambda>r. \<exists>sysp. r = Some sysp \<and> set_option sysp \<subseteq> dom (map_sys st))"
proof -
  have ran: "ran (map_dev st) \<subseteq> dom (map_sys st)" "ran (map_netif st) \<subseteq> dom (map_sys st)"
    "ran (map_mac st) \<subseteq> dom (map_sys st)"
    using mid_ran [OF dm_invD(1) [OF assms(2)]] by (auto simp: ran_in_def)
  have node: "set_option sysp \<subseteq> dom (map_sys st)" if "node_match st None n = Some sysp" for sysp n
    using that ran(1) by (auto simp: node_match_def ran_def)
  have "yields (check_devnode e st n None) (\<lambda>(igot, sysp). set_option sysp \<subseteq> dom (map_sys st))" for n
    using assms(1) node
    by (auto simp: check_devnode_def mem_ok_def split: option.splits dm_link.splits)
  then have dev: "yields (check_devnode e st n None) (\<lambda>(igot, sysp). set_option (if igot then sysp else None) \<subseteq> dom (map_sys st))" for n
    by (rule yields_mono) auto
  show ?thesis
    using assms(3) ran dev [of "cn_datastr nc"]
    by (auto simp: find_device_def ran_def case_prod_beta split: devtype.splits option.splits elim!: yields_mono)
qed

lemma dm_inv_log: "dm_inv five st \<Longrightarrow> dm_inv five (st\<lparr>dm_log := l\<rparr>)"
  by (simp add: dm_inv_def mid_def refs_ok_def fds_wf_def)

abbreviation (input) conn_post where
  "conn_post five st \<equiv> (\<lambda>(ok :: bool, st'). dm_inv five st' \<and> fds st' = fds st)"

lemma answer_inv:
  assumes "mem_ok e" and "dm_inv five st" and "cn_devtype nc \<noteq> None"
  shows "yields (answer e nc st) (conn_post five st)"
  unfolding answer_def
  using assms(2) by (auto simp: Let_def dm_inv_log intro!: yields_bind [OF find_device_total [OF assms]]
      yields_bind [OF device_status_total])

lemma conn_fds_update: "j < length cns \<Longrightarrow> cn_fd nc = cn_fd (cns ! j) \<Longrightarrow> conn_fds (cns[j := nc]) \<subseteq> conn_fds cns"
  by (auto simp: conn_fds_def dest!: set_update_subset_insert [THEN subsetD])

lemma dm_inv_conns:
  assumes "dm_inv five st" and "list_all conn_ok cns" and "conn_fds cns \<inter> set five = {}"
  shows "dm_inv five (st\<lparr>conns := cns\<rparr>)"
  using assms by (simp add: dm_inv_def mid_def refs_ok_def fds_wf_def)

lemma dm_invD_conns: "dm_inv five st \<Longrightarrow> list_all conn_ok (conns st) \<and> conn_fds (conns st) \<inter> set five = {}"
  by (simp add: dm_inv_def mid_def fds_wf_def)

lemma dm_inv_update_conn:
  assumes "dm_inv five st" and "j < length (conns st)" and "conn_ok nc" and "cn_fd nc = cn_fd (conns st ! j)"
  shows "dm_inv five (st\<lparr>dm_log := l, conns := (conns st)[j := nc]\<rparr>)"
proof -
  have "list_all conn_ok ((conns st)[j := nc])"
    using dm_invD_conns [OF assms(1)] assms(2,3) by (auto simp: list_all_length nth_list_update)
  moreover have "conn_fds ((conns st)[j := nc]) \<inter> set five = {}"
    using dm_invD_conns [OF assms(1)] conn_fds_update [OF assms(2,4)] by blast
  ultimately show ?thesis using dm_inv_conns [OF dm_inv_log [OF assms(1)], of "(conns st)[j := nc]" l] by simp
qed

lemma typed_by_type: "conn_ok c \<Longrightarrow> hd (cn_handshake c) \<noteq> NUL \<Longrightarrow> cn_devtype c \<noteq> None"
  by (simp add: conn_ok_def typed_by_def)

lemma read_value_inv:
  assumes "mem_ok e" and "dm_inv five st" and j: "j < length (conns st)" and nc: "nc = conns st ! j"
    and hs: "hd (cn_handshake nc) \<noteq> NUL"
  shows "yields (read_value e j nc st) (conn_post five st)"
proof -
  obtain r l where d: "read_datalen e nc (dm_log st) = (r, l)" by fastforce
  show ?thesis
  proof (cases r)
    case None
    then show ?thesis using assms(2) by (simp add: read_value_def d dm_inv_log)
  next
    case (Some nc1)
    have "conn_ok nc" using dm_invD_conns [OF assms(2)] j nc by (simp add: list_all_length)
    from read_datalen_ok [OF d [unfolded Some] this hs]
    have nc1: "conn_ok nc1" "cn_fd nc1 = cn_fd nc" "hd (cn_handshake nc1) \<noteq> NUL" using hs by auto
    let ?n = "unat (cn_datalen nc1) - length (cn_datastr nc1)"
    obtain ok s l2 where rd: "read_data e (cn_fd nc1) ?n (cn_datastr nc1) l = (ok, s, l2)"
      by (metis prod_cases3)
    let ?nc2 = "nc1\<lparr>cn_datastr := s\<rparr>" and ?st2 = "st\<lparr>dm_log := l2, conns := (conns st)[j := nc1\<lparr>cn_datastr := s\<rparr>]\<rparr>"
    show ?thesis
    proof (cases "length (cn_datastr nc1) \<ge> unat (cn_datalen nc1)")
      case True
      then show ?thesis using assms(2) by (simp add: read_value_def d Some dm_inv_log)
    next
      case False
      then have "length s \<le> unat (cn_datalen nc1)" using read_data_length [OF rd] by simp
      with nc1 have "conn_ok ?nc2" by (simp add: conn_ok_def)
      then have inv: "dm_inv five ?st2" using dm_inv_update_conn [OF assms(2) j] nc1(2) nc by simp
      have "cn_devtype ?nc2 \<noteq> None" using typed_by_type [OF nc1(1,3)] by simp
      from answer_inv [OF assms(1) inv this] False inv show ?thesis
        by (simp add: read_value_def d Some rd Let_def)
    qed
  qed
qed

lemma conn_input_inv:
  assumes "mem_ok e" and "dm_inv five st" and "j < length (conns st)"
  shows "yields (conn_input e j st) (conn_post five st)"
proof -
  let ?nc = "conns st ! j"
  have ok: "conn_ok ?nc" using dm_invD_conns [OF assms(2)] assms(3) by (simp add: list_all_length)
  obtain r l where h: "read_handshake e ?nc (dm_log st) = (r, l)" by fastforce
  have "dm_inv five (st\<lparr>dm_log := l, conns := (conns st)[j := nc']\<rparr>)" if "r = Some nc'" "hd (cn_handshake ?nc) = NUL" for nc'
    using read_handshake_ok [OF h [unfolded that(1)] ok that(2)] by (intro dm_inv_update_conn assms) auto
  then show ?thesis
    using read_value_inv [OF assms refl] assms(2)
    by (auto simp: conn_input_def Let_def h dm_inv_log split: option.splits)
qed

lemma find_conn_Some: "find_conn fd cns = Some j \<Longrightarrow> j < length cns \<and> cn_fd (cns ! j) = fd"
  by (induction cns arbitrary: j) (auto split: if_splits)

lemma erase_conn_subset: "set (erase_conn fd cns) \<subseteq> set cns"
  by (induction cns) auto

lemma new_conn_ok: "conn_ok (new_conn fd)"
  by (simp add: conn_ok_def new_conn_def hd_replicate)

lemma dm_invD_fds: "dm_inv five st \<Longrightarrow> fds_wf five st"
  by (simp add: dm_inv_def mid_def)

lemma fds_wf_length: "fds_wf five st \<Longrightarrow> length five \<le> length (fds st)"
  unfolding fds_wf_def by (metis length_map length_take min.cobounded1)

lemma fds_wf_front: "fds_wf five st \<Longrightarrow> p \<in> set (take (length five) (fds st)) \<Longrightarrow> pfd_fd p \<in> set five"
  unfolding fds_wf_def by (metis imageI list.set_map)

lemma five_minus: "fds_wf five st \<Longrightarrow> -1 \<notin> set five"
  by (auto simp: fds_wf_def conn_fds_def)

text \<open>A connection is dropped.\<close>

lemma dm_inv_fds:
  assumes "dm_inv five st" and "list_all conn_ok cns" and "conn_fds cns \<inter> set five = {}"
    and "map pfd_fd (take (length five) fs) = map pfd_fd (take (length five) (fds st))"
    and "pfd_fd ` set (drop (length five) fs) \<inter> set five = {}"
  shows "dm_inv five (st\<lparr>conns := cns, dm_log := l, fds := fs\<rparr>)"
  using assms by (simp add: dm_inv_def mid_def refs_ok_def fds_wf_def)

lemma bad_msg_inv:
  assumes "dm_inv five st" and "length five \<le> i" and "i < length (fds st)"
  shows "dm_inv five (bad_msg i b st)" and "length (fds (bad_msg i b st)) = length (fds st)"
proof -
  let ?p = "(fds st ! i)\<lparr>pfd_fd := -1, pfd_revents := 0\<rparr>"
  note w = dm_invD_fds [OF assms(1)]
  have "set (drop (length five) ((fds st)[i := ?p])) \<subseteq> insert ?p (set (drop (length five) (fds st)))"
    using assms(2) set_update_subset_insert [of "drop (length five) (fds st)" "i - length five" ?p] by (simp add: drop_update_swap)
  then have "pfd_fd ` set (drop (length five) ((fds st)[i := ?p])) \<inter> set five = {}"
    using w five_minus [OF w] by (fastforce simp: fds_wf_def)
  moreover have "set (if b then erase_conn fd (conns st) else conns st) \<subseteq> set (conns st)" for fd
    using erase_conn_subset by simp
  then have "list_all conn_ok (if b then erase_conn fd (conns st) else conns st)"
    "conn_fds (if b then erase_conn fd (conns st) else conns st) \<inter> set five = {}" for fd
    using dm_invD_conns [OF assms(1)] unfolding list_all_iff conn_fds_def by blast+
  ultimately show "dm_inv five (bad_msg i b st)"
    unfolding bad_msg_def Let_def using assms(2) by (intro dm_inv_fds assms(1)) simp_all
qed (simp add: bad_msg_def Let_def)

lemma handle_conn_inv:
  assumes "mem_ok e" and "dm_inv five st" and i: "length five \<le> i" "i < length (fds st)"
  shows "yields (handle_conn e i st) (\<lambda>st'. dm_inv five st' \<and> length (fds st') = length (fds st))"
proof -
  let ?p = "fds st ! i"
  obtain j st1 where o: "(case find_conn (pfd_fd ?p) (conns st) of Some j \<Rightarrow> (j, st)
      | None \<Rightarrow> (length (conns st), st\<lparr>conns := conns st @ [new_conn (pfd_fd ?p)]\<rparr>)) = (j, st1)"
    by fastforce
  have "?p \<in> set (drop (length five) (fds st))" using i by (auto simp: in_set_conv_nth intro!: exI [of _ "i - length five"])
  then have "pfd_fd ?p \<notin> set five" using dm_invD_fds [OF assms(2)] by (auto simp: fds_wf_def)
  then have "dm_inv five (st\<lparr>conns := conns st @ [new_conn (pfd_fd ?p)]\<rparr>)"
    using dm_invD_conns [OF assms(2)] new_conn_ok
    by (intro dm_inv_conns assms(2)) (auto simp: conn_fds_def new_conn_def)
  then have st1: "dm_inv five st1" "j < length (conns st1)" "fds st1 = fds st"
    using o assms(2) find_conn_Some by (auto split: option.splits)
  have bad: "dm_inv five (bad_msg i True st') \<and> length (fds (bad_msg i True st')) = length (fds st)"
    if "dm_inv five st'" "fds st' = fds st" for st'
    using bad_msg_inv [OF that(1) i(1)] that(2) i(2) by simp
  have "yields (conn_input e j st1 \<bind> (\<lambda>(ok, st'). Some (if ok then st' else bad_msg i True st')))
      (\<lambda>st'. dm_inv five st' \<and> length (fds st') = length (fds st))"
    by (rule yields_bind [OF conn_input_inv [OF assms(1) st1(1,2)]]) (use st1(3) bad in auto)
  then show ?thesis
    unfolding handle_conn_def Let_def o
    using assms(2) bad_msg_inv [OF assms(2) i] by simp
qed

text \<open>The connections of a round, by the contract of steps that keep an invariant.\<close>

interpretation conns: safe_step "handle_conn e" "\<lambda>i. mem_ok e \<and> length five \<le> i \<and> i < n"
    "\<lambda>st. dm_inv five st \<and> length (fds st) = n" for e n five
  by unfold_locales (use handle_conn_inv in auto)

interpretation events: safe_step "dinit_event e" "\<lambda>_. mem_ok e" "dm_inv five" for e five
  by unfold_locales (rule dinit_event_inv)

lemma conn_loop_inv:
  assumes "mem_ok e" and "dm_inv five st" and "length five = 5"
  shows "yields (conn_loop e [5..<length (fds st)] st) (dm_inv five)"
  unfolding conn_loop_def
  by (rule yields_mono [OF conns.run_keeps]) (use assms in \<open>auto simp: list_all_iff\<close>)

lemma dispatch_loop_inv:
  assumes "mem_ok e" and "dm_inv five st"
  shows "yields (dispatch_loop e ds st) (\<lambda>(ok, st'). dm_inv five st')"
  using assms(2)
proof (induction ds arbitrary: st)
  case (Cons d ds)
  show ?case
  proof (cases d)
    case (Dispatched evs)
    have "yields (events_loop e evs st) (dm_inv five)"
      unfolding events_loop_def by (rule events.run_keeps) (use assms(1) Cons.prems in \<open>auto simp: list_all_iff\<close>)
    then show ?thesis using Dispatched Cons by (auto intro: yields_bind)
  qed (use Cons in auto)
qed simp

section \<open>Rounds keep it\<close>

lemma set_revents_fds: "map pfd_fd (set_revents rs ps) = map pfd_fd ps"
  by (induction rs ps rule: set_revents.induct) auto

lemma fds_wf_map:
  "fds_wf five st \<longleftrightarrow> take (length five) (map pfd_fd (fds st)) = five \<and>
     set (drop (length five) (map pfd_fd (fds st))) \<inter> set five = {} \<and> conn_fds (conns st) \<inter> set five = {}"
  by (simp add: fds_wf_def take_map drop_map)

lemma dm_inv_map_fds:
  assumes "dm_inv five st" and "fds_wf five (st\<lparr>fds := fs\<rparr>)"
  shows "dm_inv five (st\<lparr>fds := fs\<rparr>)"
  using assms by (simp add: dm_inv_def mid_def refs_ok_def)

lemma set_revents_inv: "dm_inv five st \<Longrightarrow> dm_inv five (st\<lparr>fds := set_revents rs (fds st)\<rparr>)"
  by (rule dm_inv_map_fds) (use dm_invD_fds [of five st] in \<open>auto simp: fds_wf_map set_revents_fds\<close>)

lemma accept_loop_inv:
  assumes "dm_inv five st" and "set afds \<inter> set five = {}"
  shows "dm_inv five (accept_loop afds st)"
  unfolding accept_loop_def
proof (rule dm_inv_map_fds [OF assms(1)])
  have "length five \<le> length (fds st)" using dm_invD_fds [OF assms(1)] by (rule fds_wf_length)
  then show "fds_wf five (st\<lparr>fds := fds st @ map (\<lambda>fd. \<lparr>pfd_fd = fd, pfd_events = POLLIN OR POLLHUP, pfd_revents = 0\<rparr>) afds\<rparr>)"
    using dm_invD_fds [OF assms(1)] assms(2) by (auto simp: fds_wf_def image_iff)
qed

lemma filter_take_drop:
  assumes "list_all P (take n xs)" and "n \<le> length xs"
  shows "take n (filter P xs) = take n xs" and "drop n (filter P xs) = filter P (drop n xs)"
proof -
  have "filter P xs = filter P (take n xs) @ filter P (drop n xs)" by (metis append_take_drop_id filter_append)
  also have "filter P (take n xs) = take n xs" using assms(1) by (simp add: list_all_iff)
  finally have *: "filter P xs = take n xs @ filter P (drop n xs)" .
  show "take n (filter P xs) = take n xs" "drop n (filter P xs) = filter P (drop n xs)"
    unfolding * using assms(2) by simp_all
qed

lemma do_compact_inv:
  assumes "dm_inv five st"
  shows "dm_inv five (do_compact st)"
proof -
  note w = dm_invD_fds [OF assms]
  have "length five \<le> length (fds st)" using w by (rule fds_wf_length)
  moreover have "list_all (\<lambda>p. pfd_fd p \<noteq> -1) (take (length five) (fds st))"
    unfolding list_all_iff using fds_wf_front [OF w] five_minus [OF w] by metis
  ultimately have "take (length five) (filter (\<lambda>p. pfd_fd p \<noteq> -1) (fds st)) = take (length five) (fds st)"
    "drop (length five) (filter (\<lambda>p. pfd_fd p \<noteq> -1) (fds st)) = filter (\<lambda>p. pfd_fd p \<noteq> -1) (drop (length five) (fds st))"
    by (rule filter_take_drop [rotated])+
  then have "dm_inv five (st\<lparr>conns := filter (\<lambda>cn. cn_fd cn \<noteq> -1) (conns st), dm_log := dm_log st,
      fds := filter (\<lambda>p. pfd_fd p \<noteq> -1) (fds st)\<rparr>)"
    using dm_invD_conns [OF assms] w
    by (intro dm_inv_fds assms) (auto simp: list_all_iff conn_fds_def fds_wf_def)
  then show ?thesis by (simp add: do_compact_def dm_inv_def mid_def refs_ok_def fds_wf_def)
qed

text \<open>
  What the system promises in a round: descriptors that are new are not in use, and udev names
  the action of an event.
\<close>

definition round_ok :: "int list \<Rightarrow> dm_round \<Rightarrow> bool" where
  "round_ok five rd \<longleftrightarrow> list_all (\<lambda>fd. fd \<notin> set five) (rd_accept rd) \<and> udev_ok (rd_mon1 rd) \<and> udev_ok (rd_mon2 rd)"

abbreviation (input) step_post where
  "step_post five \<equiv> (\<lambda>(r, st'). dm_inv five st')"

lemma udev_step_inv:
  "mem_ok e \<Longrightarrow> udev_ok mon \<Longrightarrow> dm_inv five st \<Longrightarrow> yields (udev_step e ni mon tagged st) (step_post five)"
  by (simp add: udev_step_def resolve_device_inv)

lemma dinit_step_inv: "mem_ok e \<Longrightarrow> dm_inv five st \<Longrightarrow> yields (dinit_step e ni ds st) (step_post five)"
  by (simp add: dinit_step_def dispatch_loop_inv)

lemma round_events_inv:
  assumes "mem_ok e" and "round_ok five rd" and "length five = 5" and "dm_inv five st"
  shows "yields (round_events e rd st) (step_post five)"
proof -
  have "dm_inv five (accept_loop (rd_accept rd) st)"
    using assms(2,4) by (auto simp: round_ok_def list_all_iff intro!: accept_loop_inv)
  moreover have "yields (conn_loop e [5..<length (fds st')] st' \<bind> (\<lambda>st. Some (Again, do_compact st))) (step_post five)"
    if "dm_inv five st'" for st'
    using that assms(3) by (auto intro!: yields_bind [OF conn_loop_inv [OF assms(1)]] do_compact_inv)
  ultimately show ?thesis
    using assms unfolding round_events_def Let_def round_ok_def
    by (auto intro!: yields_bind [OF udev_step_inv] yields_bind [OF dinit_step_inv])
qed

lemma main_round_inv:
  assumes "mem_ok e" and "round_ok five rd" and "length five = 5" and "dm_inv five st"
  shows "yields (main_round e rd st) (step_post five)"
  using assms(4) round_events_inv [OF assms(1-3) set_revents_inv [OF assms(4)]]
    set_revents_inv [OF assms(4)]
  by (auto simp: main_round_def Let_def do_compact_inv split: poll_result.splits)

lemma main_loop_inv:
  assumes "mem_ok e" and "length five = 5" and "list_all (round_ok five) rds" and "dm_inv five st"
  shows "yields (main_loop e rds st) (step_post five)"
  using assms(3,4)
proof (induction rds arbitrary: st)
  case (Cons rd rds)
  then show ?case
    by (auto intro!: yields_bind [OF main_round_inv [OF assms(1) _ assms(2)]] split: round_end.splits)
qed simp

end
