(* ===== verification/Devmon_Main.thy ===== *)
theory Devmon_Main
  imports Devmon_Inv
begin

unbundle bit_operations_syntax

text \<open>
  The set-up of the device monitor, \<^verbatim>\<open>src/early/helpers/devmon.cc\<close>: \<open>sock_new\<close> and \<open>main\<close> around the event
  loop. The calls of the set-up are a datatype of their own; whether a call succeeds is a
  parameter, and the calls that were made are the result.
\<close>

section \<open>The control socket\<close>

datatype boot_call =
    BtPipe | BtSocket | BtSetRcvbuf | BtSetSndbuf | BtUnlink string | BtBind string | BtChmod string nat | BtListen
  | BtCloseSock
  | BtFcntl int | BtOpenFd int | BtOpenSystem | BtLoadSystem string | BtEventCallback
  | BtUdevNew | BtEnumNew nat | BtEnumTag nat string | BtEnumMatch nat string | BtEnumNoMatch nat string
  | BtMonNew nat | BtMonSubsys nat string | BtMonTag nat string | BtMonEnable nat
  | BtEnumUnref nat | BtMonUnref nat | BtUdevUnref | BtDinitClose | BtCloseFd int

text \<open>The length of \<open>sun_path\<close>.\<close>

abbreviation (input) SUN_PATH :: nat where "SUN_PATH \<equiv> 108"

definition sock_new :: "(boot_call \<Rightarrow> bool) \<Rightarrow> string \<Rightarrow> nat \<Rightarrow> bool \<times> boot_call list" where
  "sock_new ok path perm =
     (if \<not> ok BtSocket then (False, [BtSocket])
      else
        let l = [BtSocket, BtSetRcvbuf, BtSetSndbuf]
        in if length path \<ge> SUN_PATH then (False, l @ [BtCloseSock])
           else
             let l = l @ [BtUnlink path, BtBind path]
             in if \<not> ok (BtBind path) then (False, l @ [BtCloseSock])
                else
                  let l = l @ [BtChmod path perm]
                  in if \<not> ok (BtChmod path perm) then (False, l @ [BtUnlink path, BtCloseSock])
                     else
                       let l = l @ [BtListen]
                       in if \<not> ok BtListen then (False, l @ [BtUnlink path, BtCloseSock])
                          else (True, l))"

section \<open>Connecting to dinit\<close>

definition dinit_setup :: "(boot_call \<Rightarrow> bool) \<Rightarrow> string option \<Rightarrow> string option \<Rightarrow> bool \<times> boot_call list" where
  "dinit_setup ok cs_fd sserv =
     (let sserv = (case sserv of None \<Rightarrow> ''system'' | Some s \<Rightarrow> if s = [] then ''system'' else s);
          open_call = (case cs_fd of Some d \<Rightarrow> BtOpenFd (atoi d) | None \<Rightarrow> BtOpenSystem);
          fd_bad = (case cs_fd of Some d \<Rightarrow> atoi d = 0 \<or> \<not> ok (BtFcntl (atoi d)) | None \<Rightarrow> False);
          pre = (case cs_fd of Some d \<Rightarrow> if atoi d = 0 then [] else [BtFcntl (atoi d)] | None \<Rightarrow> [])
      in if fd_bad then (False, pre)
         else if \<not> ok open_call then (False, pre @ [open_call])
         else if \<not> ok (BtLoadSystem sserv) then (False, pre @ [open_call, BtLoadSystem sserv])
         else (ok BtEventCallback, pre @ [open_call, BtLoadSystem sserv, BtEventCallback]))"

section \<open>Setting up udev\<close>

text \<open>
  A step of the set-up: the calls it makes, the call whose result it looks at, and what it undoes
  before \<open>main\<close> returns 1.
\<close>

type_synonym boot_step = "boot_call list \<times> boot_call list \<times> boot_call list"

fun run_steps :: "(boot_call \<Rightarrow> bool) \<Rightarrow> boot_step list \<Rightarrow> bool \<times> boot_call list" where
  "run_steps ok [] = (True, [])"
| "run_steps ok ((calls, tested, undo) # steps) =
     (if list_all ok tested then case run_steps ok steps of (r, l) \<Rightarrow> (r, calls @ l)
      else (False, calls @ undo))"

abbreviation (input) one :: "boot_call \<Rightarrow> boot_call list \<Rightarrow> boot_step" where
  "one c undo \<equiv> ([c], [c], undo)"

text \<open>After the second monitor was made, the source looks at the first one again.\<close>

definition udev_steps :: "boot_step list" where
  "udev_steps =
     (let en = [BtEnumUnref 1, BtEnumUnref 2, BtUdevUnref];
          mon = [BtMonUnref 1, BtMonUnref 2, BtUdevUnref]
      in [one BtUdevNew [],
          ([BtEnumNew 1, BtEnumNew 2], [BtEnumNew 1, BtEnumNew 2], [BtUdevUnref]),
          one (BtEnumTag 2 ''systemd'') en, one (BtEnumTag 2 ''dinit'') en] @
         concat (map (\<lambda>p. [one (BtEnumMatch 1 p) en, one (BtEnumNoMatch 2 p) en]) notag_subsys) @
         [one (BtMonNew 1) [BtUdevUnref],
          ([BtMonNew 2], [BtMonNew 1], [BtMonUnref 1, BtUdevUnref])] @
         map (\<lambda>p. one (BtMonSubsys 1 p) mon) notag_subsys @
         [one (BtMonTag 2 ''systemd'') mon, one (BtMonTag 2 ''dinit'') mon,
          one (BtMonEnable 1) mon, one (BtMonEnable 2) mon])"

section \<open>The program\<close>

text \<open>
  What \<open>main\<close> is given: the results of the calls of the set-up, the path of the socket (a constant of
  the build), the two environment variables, the two enumerations, the descriptors and the calls of
  \<open>dinitctl_dispatch\<close> before the loop.
\<close>

record dm_boot =
  bt_ok :: "boot_call \<Rightarrow> bool"
  bt_socket_path :: string
  bt_cs_fd :: "string option"
  bt_service :: "string option"
  bt_en1 :: "(string \<times> udev_device option) list option"
  bt_en2 :: "(string \<times> udev_device option) list option"
  bt_fds :: "int list"
  bt_dispatch :: "dispatch list"

definition pollfds :: "(int \<times> u16) list \<Rightarrow> pollfd list" where
  "pollfds = map (\<lambda>(fd, ev). \<lparr>pfd_fd = fd, pfd_events = ev, pfd_revents = 0\<rparr>)"

text \<open>
  The descriptors are, in order, those of the signals, the control socket, the two monitors and
  dinit; only the first two are in \<open>fds\<close> while the devices are enumerated. \<open>initial_populate\<close> drops its
  enumeration when it fails after the scan, and then \<open>main\<close> drops both.
\<close>

definition populate_undo :: "nat \<Rightarrow> (string \<times> udev_device option) list option \<Rightarrow> boot_call list" where
  "populate_undo n en =
     (case en of None \<Rightarrow> [] | Some _ \<Rightarrow> [BtEnumUnref n]) @ [BtEnumUnref 1, BtEnumUnref 2, BtUdevUnref]"

definition devmon_populate :: "dm_env \<Rightarrow> dm_boot \<Rightarrow> (bool \<times> boot_call list \<times> dm) option" where
  "devmon_populate e bt =
     do {
       let fd = (\<lambda>i. bt_fds bt ! i);
       let st = dm_start\<lparr>fds := pollfds [(fd 0, POLLIN), (fd 1, POLLIN)]\<rparr>;
       (ok, st) \<leftarrow> initial_populate e (bt_en1 bt) st;
       if \<not> ok then Some (False, populate_undo 1 (bt_en1 bt), st)
       else do {
         (ok, st) \<leftarrow> initial_populate e (bt_en2 bt) st;
         if \<not> ok then Some (False, populate_undo 2 (bt_en2 bt), st)
         else do {
           let st = st\<lparr>fds := fds st @ pollfds [(fd 2, POLLIN), (fd 3, POLLIN), (fd 4, POLLIN OR POLLHUP)]\<rparr>;
           (ok, st) \<leftarrow> dispatch_loop e (bt_dispatch bt) st;
           Some (ok, [BtEnumUnref 1, BtEnumUnref 2], st)
         }
       }
     }"

definition devmon_setup :: "dm_boot \<Rightarrow> bool \<times> boot_call list" where
  "devmon_setup bt =
     (if \<not> bt_ok bt BtPipe then (False, [BtPipe])
      else case sock_new (bt_ok bt) (bt_socket_path bt) 0x1C0 of
        (False, l) \<Rightarrow> (False, BtPipe # l)
      | (True, l) \<Rightarrow>
          (case dinit_setup (bt_ok bt) (bt_cs_fd bt) (bt_service bt) of
             (False, l') \<Rightarrow> (False, BtPipe # l @ l')
           | (True, l') \<Rightarrow>
               (case run_steps (bt_ok bt) udev_steps of
                  (r, l'') \<Rightarrow> (r, BtPipe # l @ l' @ l''))))"

text \<open>The end of \<open>main\<close>.\<close>

definition devmon_exit :: "dm \<Rightarrow> boot_call list" where
  "devmon_exit st =
     [BtCloseFd (pfd_fd (fds st ! 0)), BtCloseFd (pfd_fd (fds st ! 1))] @
     map (\<lambda>cn. BtCloseFd (cn_fd cn)) (conns st) @
     [BtMonUnref 1, BtMonUnref 2, BtUdevUnref, BtDinitClose]"

text \<open>The exit status, \<open>None\<close> while the daemon waits for the next round.\<close>

definition devmon_main :: "dm_env \<Rightarrow> dm_boot \<Rightarrow> dm_round list \<Rightarrow> (nat option \<times> boot_call list \<times> dm) option" where
  "devmon_main e bt rds =
     (case devmon_setup bt of
        (False, l) \<Rightarrow> Some (Some 1, l, dm_start)
      | (True, l) \<Rightarrow>
          do {
            (ok, l', st) \<leftarrow> devmon_populate e bt;
            let l = l @ l';
            if \<not> ok then Some (Some 1, l, st)
            else do {
              (r, st) \<leftarrow> main_loop e rds st;
              case r of
                None \<Rightarrow> Some (None, l, st)
              | Some n \<Rightarrow> Some (Some n, l @ devmon_exit st, st)
            }
          })"

section \<open>The daemon does not die\<close>

text \<open>
  What the system promises: five descriptors that are different from each other and valid, and a
  subsystem for every device that is enumerated.
\<close>

definition enum_ok :: "(string \<times> udev_device option) list option \<Rightarrow> bool" where
  "enum_ok en = (case en of None \<Rightarrow> True | Some ds \<Rightarrow> list_all entry_ok ds)"

definition boot_ok :: "dm_boot \<Rightarrow> bool" where
  "boot_ok bt \<longleftrightarrow>
     length (bt_fds bt) = 5 \<and> distinct (bt_fds bt) \<and> -1 \<notin> set (bt_fds bt) \<and>
     enum_ok (bt_en1 bt) \<and> enum_ok (bt_en2 bt)"

text \<open>While there are no connections, devices do not change the descriptors.\<close>

lemma write_all_quiet: "conns st = [] \<Longrightarrow> write_all e sel b st = Some st"
  by (cases st) (simp add: write_all_def)

lemma write_quiet:
  "conns st = [] \<Longrightarrow> write_gen e t b n st = Some st"
  "conns st = [] \<Longrightarrow> write_dev e b n st = Some st"
  by (simp_all add: write_gen_def write_dev_def write_all_quiet)

lemma ready_quiet: "conns st = [] \<Longrightarrow> ready e b d st = Some st"
  by (simp add: ready_def write_quiet)

abbreviation (input) quiet :: "dm \<Rightarrow> dm \<Rightarrow> bool" where
  "quiet st st' \<equiv> conns st' = [] \<and> fds st' = fds st"

lemma issue_quiet: "issue e c cb st = (ok, st') \<Longrightarrow> conns st = [] \<Longrightarrow> quiet st st'"
  by (auto simp: issue_def Let_def)

lemma process_quiet: "process e d st = Some (ok, d', st') \<Longrightarrow> conns st = [] \<Longrightarrow> quiet st st'"
  by (auto simp: process_def Let_def close_device_svc_def async_defs issue_def ready_quiet
      split: option.splits if_splits)

lemma handle_device_dinit_quiet:
  "handle_device_dinit e dev d st = Some (ok, d', st') \<Longrightarrow> conns st = [] \<Longrightarrow> quiet st st'"
  by (auto simp: handle_device_dinit_def Let_def ready_quiet split: if_splits dest: process_quiet)

lemma device_set_quiet: "device_set e dev n d st = Some (d', st') \<Longrightarrow> conns st = [] \<Longrightarrow> quiet st st'"
  by (auto simp: device_set_def set_dev_def set_ifname_def set_mac_def write_quiet Let_def
      split: if_splits option.splits bind_splits)

lemma device_init_quiet: "device_init dev n d st = (d', st') \<Longrightarrow> conns st = [] \<Longrightarrow> quiet st st'"
  by (auto simp: device_init_def init_dev_def init_net_def Let_def split: if_splits option.splits)

lemma add_new_quiet: "add_new e dev k ssys n d st = Some (ok, st') \<Longrightarrow> conns st = [] \<Longrightarrow> quiet st st'"
  by (auto simp: add_new_def Let_def put_dev_def split: bind_splits prod.splits if_splits
      dest!: handle_device_dinit_quiet device_init_quiet)

lemma add_device_quiet: "add_device e dev sysp ssys st = Some (ok, st') \<Longrightarrow> conns st = [] \<Longrightarrow> quiet st st'"
  by (auto simp: add_device_def put_dev_def split: bind_splits option.splits if_splits
      dest!: handle_device_dinit_quiet device_set_quiet add_new_quiet)

lemma populate_loop_quiet: "populate_loop e ds st = Some (ok, st') \<Longrightarrow> conns st = [] \<Longrightarrow> quiet st st'"
proof (induction ds arbitrary: st)
  case (Cons pd ds)
  then show ?case
    by (cases pd) (auto split: option.splits bind_splits if_splits dest!: add_device_quiet)
qed simp

lemma initial_populate_inv:
  assumes "mem_ok e" and "dm_inv five st" and "conns st = []"
    and "enum_ok en"
  shows "yields (initial_populate e en st) (\<lambda>(ok, st'). dm_inv five st' \<and> quiet st st')"
proof (cases en)
  case None
  then show ?thesis using assms by (simp add: initial_populate_def)
next
  case (Some ds)
  have "yields (populate_loop e ds st) (\<lambda>(ok, st'). dm_inv five st')"
    using assms(4) Some by (intro populate_loop_inv assms) (simp add: enum_ok_def)
  then obtain ok st' where p: "populate_loop e ds st = Some (ok, st')" "dm_inv five st'"
    by (auto dest!: yieldsD)
  then show ?thesis
    using Some populate_loop_quiet [OF p(1) assms(3)] by (simp add: initial_populate_def)
qed

lemma dm_inv_start: "-1 \<notin> pfd_fd ` set ps \<Longrightarrow> dm_inv (map pfd_fd ps) (dm_start\<lparr>fds := ps\<rparr>)"
  by (auto simp: dm_inv_def mid_def refs_ok_def ran_in_def fds_wf_def conn_fds_def dm_start_def)

lemma dm_inv_more_fds:
  assumes "dm_inv (map pfd_fd ps) st" and "conns st = []" and "-1 \<notin> pfd_fd ` set qs"
  shows "dm_inv (map pfd_fd (ps @ qs)) (st\<lparr>fds := ps @ qs\<rparr>)"
  using assms by (auto simp: dm_inv_def mid_def refs_ok_def fds_wf_def conn_fds_def)

lemma devmon_populate_inv:
  assumes "mem_ok e" and "boot_ok bt"
  shows "yields (devmon_populate e bt) (\<lambda>(ok, l, st'). \<not> ok \<or> dm_inv (bt_fds bt) st')"
proof -
  let ?fd = "\<lambda>i. bt_fds bt ! i"
  let ?ps = "pollfds [(?fd 0, POLLIN), (?fd 1, POLLIN)]"
  let ?qs = "pollfds [(?fd 2, POLLIN), (?fd 3, POLLIN), (?fd 4, POLLIN OR POLLHUP)]"
  have five: "bt_fds bt = map ?fd [0, 1, 2, 3, 4]"
    using assms(2) by (intro nth_equalityI) (auto simp: boot_ok_def less_Suc_eq numeral_eq_Suc)
  have minus: "-1 \<notin> pfd_fd ` set ?ps" "-1 \<notin> pfd_fd ` set ?qs"
    using assms(2) nth_mem [of _ "bt_fds bt"] by (auto simp: boot_ok_def pollfds_def)
  have all: "map pfd_fd (?ps @ ?qs) = bt_fds bt"
    unfolding pollfds_def using five [symmetric] by simp
  let ?st0 = "dm_start\<lparr>fds := ?ps\<rparr>"
  have st0: "dm_inv (map pfd_fd ?ps) ?st0" "conns ?st0 = []" "fds ?st0 = ?ps"
    using dm_inv_start [OF minus(1)] by (simp_all add: dm_start_def)
  define Q where "Q st' \<longleftrightarrow> dm_inv (map pfd_fd ?ps) st' \<and> quiet ?st0 st'" for st'
  have pop: "yields (initial_populate e en st') (\<lambda>(ok, st'). Q st')" if "enum_ok en" "Q st'" for en st'
    using initial_populate_inv [OF assms(1) _ _ that(1), of "map pfd_fd ?ps" st'] that(2)
    by (auto simp: Q_def elim!: yields_mono)
  have loop: "yields (dispatch_loop e ds (st'\<lparr>fds := fds st' @ ?qs\<rparr>)) (\<lambda>(ok, st''). dm_inv (bt_fds bt) st'')"
    if "Q st'" for ds st'
    using that dm_inv_more_fds [of ?ps st' ?qs, OF _ _ minus(2)] all st0(3)
    by (intro dispatch_loop_inv assms(1)) (simp add: Q_def)
  have "Q ?st0" using st0 by (simp add: Q_def)
  then show ?thesis
    using assms(2) unfolding devmon_populate_def Let_def boot_ok_def
    by (auto intro!: yields_bind [OF pop] yields_bind [OF loop [simplified]])
qed

lemma devmon_main_total:
  assumes "mem_ok e" and "boot_ok bt" and "list_all (round_ok (bt_fds bt)) rds"
  shows "\<exists>r l st. devmon_main e bt rds = Some (r, l, st) \<and>
    (r = None \<longrightarrow> dm_inv (bt_fds bt) st)"
proof (cases "devmon_setup bt")
  case (Pair ok l)
  have loop: "yields (main_loop e rds st) (\<lambda>(r, st'). dm_inv (bt_fds bt) st')" if "dm_inv (bt_fds bt) st" for st
    using assms that by (intro main_loop_inv) (auto simp: boot_ok_def)
  have "yields (devmon_main e bt rds) (\<lambda>(r, l, st). r = None \<longrightarrow> dm_inv (bt_fds bt) st)"
    unfolding devmon_main_def Pair
    by (cases ok) (auto simp: Let_def intro!: yields_bind [OF devmon_populate_inv [OF assms(1,2)]] yields_bind [OF loop]
        split: option.splits)
  then show ?thesis by (auto dest!: yieldsD)
qed

text \<open>
  C2: The monitor never dies: as long as memory does not run out, the five descriptors it starts
  with are valid and different, the kernel gives each accepted connection a fresh descriptor and
  udev names subsystems and actions, any set-up followed by any sequence of rounds returns - no
  abort, uncaught exception or null pointer is reached - and while it runs the state has its
  invariant: every reference to a device, from a table, the USB numbers, the service handles or a
  pending callback, is a key of the device table, every connection is in one of the states of the
  protocol, and the descriptors of the daemon itself are still the first five.
\<close>

theorem devmon_never_dies:
  assumes "mem_ok e" and "boot_ok bt" and "list_all (round_ok (bt_fds bt)) rds"
  shows "\<exists>r l st. devmon_main e bt rds = Some (r, l, st) \<and>
    (r = None \<longrightarrow> dm_inv (bt_fds bt) st)"
  using assms by (rule devmon_main_total)

text \<open>A small run: a terminal is enumerated, a client connects and the terminal goes away.\<close>

definition demo_boot :: dm_boot where
  "demo_boot = \<lparr>bt_ok = (\<lambda>c. True), bt_socket_path = ''/run/dinit-devmon.sock'', bt_cs_fd = None, bt_service = None,
     bt_en1 = Some [(''/sys/a'', Some (udev_event ''add'' ''/sys/a'' ''tty'' ''/dev/a''))], bt_en2 = Some [],
     bt_fds = [3, 4, 5, 6, 7], bt_dispatch = []\<rparr>"

definition demo_round :: dm_round where
  "demo_round = \<lparr>rd_poll = PollSome [0, POLLIN, POLLIN], rd_signal = False, rd_accept = [8],
     rd_mon1 = Some (udev_event ''remove'' ''/sys/a'' ''tty'' ''/dev/a''), rd_mon2 = None, rd_dispatch = []\<rparr>"

lemma demo_ok: "mem_ok calm_env" "boot_ok demo_boot" "list_all (round_ok (bt_fds demo_boot)) [demo_round]"
  by (simp_all add: mem_ok_def calm_env_def boot_ok_def enum_ok_def entry_ok_def round_ok_def udev_ok_def demo_boot_def
      demo_round_def udev_event_def)

theorem devmon_never_dies_witness:
  "\<exists>r l st. devmon_main calm_env demo_boot [demo_round] = Some (r, l, st) \<and>
    (r = None \<longrightarrow> dm_inv (bt_fds demo_boot) st)"
  by (rule devmon_never_dies [OF demo_ok])

end
