(* ===== verification/Devmon_Notify.thy ===== *)
theory Devmon_Notify
  imports Devmon_Inv "HOL-Library.Multiset"
begin

unbundle bit_operations_syntax

text \<open>
  What the clients of the device monitor are told: the connections that \<open>ready\<close> writes to, as a
  specification of who watches a device, and the life of a device without and with the dinit tag.
\<close>

section \<open>Who is told\<close>

text \<open>Every byte can be written, and links resolve as \<open>lk\<close> says.\<close>

definition io_ok :: "(string \<Rightarrow> dm_link) \<Rightarrow> dm_env \<Rightarrow> bool" where
  "io_ok lk e \<longleftrightarrow> (\<forall>l fd. de_write e l fd) \<and> (\<forall>l p. de_link e l p = lk p) \<and> (\<forall>p. lk p \<noteq> NoMemory)"

definition resolves :: "(string \<Rightarrow> dm_link) \<Rightarrow> string \<Rightarrow> string \<Rightarrow> bool" where
  "resolves lk node name \<longleftrightarrow> node = name \<or> lk (cstr node) = Resolved name"

text \<open>A connection watches a device: the specification of whom \<open>ready\<close> writes to.\<close>

definition watches :: "(string \<Rightarrow> dm_link) \<Rightarrow> device \<Rightarrow> conn \<Rightarrow> bool" where
  "watches lk d cn =
     (case cn_devtype cn of
        None \<Rightarrow> False
      | Some DEVICE_SYS \<Rightarrow> dv_subsys d \<noteq> ''usb'' \<and> cn_datastr cn = dv_syspath d
      | Some DEVICE_USB \<Rightarrow> dv_subsys d = ''usb'' \<and> cn_datastr cn = dv_syspath d
      | Some DEVICE_NETIF \<Rightarrow> dv_subsys d = ''net'' \<and> dv_name d \<noteq> [] \<and> cn_datastr cn = dv_name d
      | Some DEVICE_MAC \<Rightarrow> dv_subsys d = ''net'' \<and> dv_mac d \<noteq> [] \<and> cn_datastr cn = dv_mac d
      | Some DEVICE_DEV \<Rightarrow> dv_subsys d \<notin> {''usb'', ''net''} \<and> dv_name d \<noteq> [] \<and> resolves lk (cn_datastr cn) (dv_name d))"

definition told_bytes :: "(conn \<Rightarrow> bool) \<Rightarrow> u8 \<Rightarrow> conn list \<Rightarrow> dm_call list" where
  "told_bytes P b cns = map (\<lambda>cn. DmWrite (cn_fd cn) b) (filter P cns)"

lemma write_loop_ok:
  assumes "\<And>l fd. de_write e l fd" and "\<And>l cn. sel l cn = Some (P cn)"
  shows "write_loop e sel b cns fs l = Some (cns, fs, l @ told_bytes P b cns)"
  by (induction cns arbitrary: fs l) (auto simp: assms write_conn_def told_bytes_def)

lemma write_all_ok:
  assumes "\<And>l fd. de_write e l fd" and "\<And>l cn. sel l cn = Some (P cn)"
  shows "write_all e sel b st = Some (st\<lparr>dm_log := dm_log st @ told_bytes P b (conns st)\<rparr>)"
  unfolding write_all_def write_loop_ok [OF assms] by (cases st) simp

lemma write_gen_ok:
  "io_ok lk e \<Longrightarrow> write_gen e t b n st =
     Some (st\<lparr>dm_log := dm_log st @ told_bytes (\<lambda>cn. cn_devtype cn = Some t \<and> cn_datastr cn = n) b (conns st)\<rparr>)"
  unfolding write_gen_def by (rule write_all_ok) (auto simp: io_ok_def sel_gen_def)

lemma check_devnode_name:
  "io_ok lk e \<Longrightarrow> map_option fst (check_devnode e st node (Some name)) = Some (resolves lk node name)"
  by (auto simp: check_devnode_def node_match_def resolves_def io_ok_def split: dm_link.splits)

lemma write_dev_ok:
  "io_ok lk e \<Longrightarrow> write_dev e b n st =
     Some (st\<lparr>dm_log := dm_log st @
       told_bytes (\<lambda>cn. cn_devtype cn = Some DEVICE_DEV \<and> resolves lk (cn_datastr cn) n) b (conns st)\<rparr>)"
  unfolding write_dev_def
  by (rule write_all_ok) (simp_all add: sel_dev_def check_devnode_name, simp add: io_ok_def)

lemma mset_told_bytes:
  "(\<And>cn. \<not> (P cn \<and> Q cn)) \<Longrightarrow>
     mset (told_bytes P b cns) + mset (told_bytes Q b cns) = mset (told_bytes (\<lambda>cn. P cn \<or> Q cn) b cns)"
  by (induction cns) (auto simp: told_bytes_def)

lemma told_bytes_if: "(if c then told_bytes P b cns else []) = told_bytes (\<lambda>cn. c \<and> P cn) b cns"
  by (simp add: told_bytes_def)

lemma told_bytes_cong: "(\<And>cn. P cn = Q cn) \<Longrightarrow> told_bytes P b cns = told_bytes Q b cns"
  by presburger

lemma ready_tells_log:
  assumes "io_ok lk e"
  shows "\<exists>ws. ready e b d st = Some (st\<lparr>dm_log := dm_log st @ ws\<rparr>) \<and>
    mset ws = mset (told_bytes (watches lk d) b (conns st))"
proof -
  let ?is = "\<lambda>t n cn. cn_devtype cn = Some t \<and> cn_datastr cn = n"
  let ?tell = "\<lambda>P. told_bytes P b (conns st)"
  let ?node = "\<lambda>cn. cn_devtype cn = Some DEVICE_DEV \<and> resolves lk (cn_datastr cn) (dv_name d)"
  consider (usb) "dv_subsys d = ''usb''" | (net) "dv_subsys d = ''net''" | (other) "dv_subsys d \<notin> {''usb'', ''net''}"
    by blast
  then show ?thesis
  proof cases
    case usb
    then have "?tell (?is DEVICE_USB (dv_syspath d)) = ?tell (watches lk d)"
      by (intro told_bytes_cong) (auto simp: watches_def split: option.splits devtype.splits)
    then show ?thesis using usb by (auto simp: ready_def write_gen_ok [OF assms])
  next
    case net
    let ?ws = "?tell (?is DEVICE_SYS (dv_syspath d)) @ ?tell (\<lambda>cn. dv_name d \<noteq> [] \<and> ?is DEVICE_NETIF (dv_name d) cn) @
      ?tell (\<lambda>cn. dv_mac d \<noteq> [] \<and> ?is DEVICE_MAC (dv_mac d) cn)"
    have "ready e b d st = Some (st\<lparr>dm_log := dm_log st @ ?ws\<rparr>)"
      using net by (auto simp: ready_def write_gen_ok [OF assms] told_bytes_def)
    moreover have "mset ?ws = mset (?tell (watches lk d))"
      using net
      by (auto simp: mset_told_bytes watches_def split: option.splits devtype.splits
          intro!: arg_cong [of _ _ mset] told_bytes_cong)
    ultimately show ?thesis by blast
  next
    case other
    let ?ws = "?tell (?is DEVICE_SYS (dv_syspath d)) @ ?tell (\<lambda>cn. dv_name d \<noteq> [] \<and> ?node cn)"
    have "ready e b d st = Some (st\<lparr>dm_log := dm_log st @ ?ws\<rparr>)"
      using other by (auto simp: ready_def write_gen_ok [OF assms] write_dev_ok [OF assms] told_bytes_def)
    moreover have "mset ?ws = mset (?tell (watches lk d))"
      using other
      by (auto simp: mset_told_bytes watches_def split: option.splits devtype.splits
          intro!: arg_cong [of _ _ mset] told_bytes_cong)
    ultimately show ?thesis by blast
  qed
qed

section \<open>Devices without a tag\<close>

lemma ready_flags [simp]:
  "ready e b (d\<lparr>dv_has_tag := x\<rparr>) st = ready e b d st"
  "ready e b (d\<lparr>dv_device_svc := h\<rparr>) st = ready e b d st"
  by (simp_all add: ready_def cong: if_cong)

text \<open>The bytes written between two states.\<close>

definition is_write :: "dm_call \<Rightarrow> bool" where
  "is_write c = (case c of DmWrite _ _ \<Rightarrow> True | _ \<Rightarrow> False)"

lemma is_write_simps [simp]:
  "is_write (DmWrite fd b)" "\<not> is_write (DmRead fd n)" "\<not> is_write (DmClose fd)" "\<not> is_write (DmLoad s f cb)"
  "\<not> is_write (DmDepend a h x y cb)" "\<not> is_write (DmWake h)" "\<not> is_write (DmCloseHandle h)" "\<not> is_write DmAbort"
  by (simp_all add: is_write_def)

definition wrote :: "dm \<Rightarrow> dm \<Rightarrow> dm_call multiset \<Rightarrow> bool" where
  "wrote st st' W \<longleftrightarrow> (\<exists>new. dm_log st' = dm_log st @ new \<and> mset (filter is_write new) = W)"

lemma wrote_trans: "wrote a b V \<Longrightarrow> wrote b c W \<Longrightarrow> wrote a c (V + W)"
  by (auto simp: wrote_def)

lemma wroteI: "dm_log st' = dm_log st @ new \<Longrightarrow> wrote st st' (mset (filter is_write new))"
  by (auto simp: wrote_def)

lemma wrote_same: "dm_log st' = dm_log st \<Longrightarrow> wrote st st' {#}"
  by (simp add: wrote_def)

lemma wrote_call: "dm_log st' = dm_log st @ [c] \<Longrightarrow> \<not> is_write c \<Longrightarrow> wrote st st' {#}"
  by (auto simp: wrote_def)

text \<open>The bytes with which the clients of a device are told a status.\<close>

definition news :: "(string \<Rightarrow> dm_link) \<Rightarrow> device \<Rightarrow> u8 \<Rightarrow> conn list \<Rightarrow> dm_call multiset" where
  "news lk d b cns = mset (told_bytes (watches lk d) b cns)"

lemma filter_writes:
  assumes "mset ws = mset (told_bytes P b cns)"
  shows "filter is_write ws = ws"
  unfolding filter_id_conv mset_eq_setD [OF assms] by (auto simp: told_bytes_def)

lemma ready_news:
  assumes "io_ok lk e"
  shows "\<exists>st'. ready e b d st = Some st' \<and> wrote st st' (news lk d b (conns st)) \<and> (\<exists>l. st' = st\<lparr>dm_log := l\<rparr>)"
proof -
  obtain ws where "ready e b d st = Some (st\<lparr>dm_log := dm_log st @ ws\<rparr>)"
    and ws: "mset ws = mset (told_bytes (watches lk d) b (conns st))"
    using ready_tells_log [OF assms] by blast
  then show ?thesis
    using filter_writes [OF ws] ws by (auto simp: wrote_def news_def simp del: mset_filter)
qed

lemma watches_cong:
  assumes "dv_syspath d' = dv_syspath d" and "dv_subsys d' = dv_subsys d" and "dv_name d' = dv_name d" and "dv_mac d' = dv_mac d"
  shows "watches lk d' = watches lk d"
  by (rule ext) (simp only: watches_def assms)

lemma news_cong:
  assumes "dv_syspath d' = dv_syspath d" and "dv_subsys d' = dv_subsys d" and "dv_name d' = dv_name d" and "dv_mac d' = dv_mac d"
  shows "news lk d' = news lk d"
  using watches_cong [OF assms] by (intro ext) (simp add: news_def)

lemma news_flags [simp]:
  "news lk (d\<lparr>dv_removed := x\<rparr>) = news lk d" "news lk (d\<lparr>dv_pending_svcs := n\<rparr>) = news lk d"
  "news lk (d\<lparr>dv_device_svc := h\<rparr>) = news lk d" "news lk (d\<lparr>dv_has_tag := x\<rparr>) = news lk d"
  "news lk (d\<lparr>dv_nsvcset := s\<rparr>) = news lk d" "news lk (d\<lparr>dv_pending := x\<rparr>) = news lk d"
  by (rule news_cong; simp)+

lemma untagged_ready:
  assumes "io_ok lk e" and "\<not> dv_has_tag d" and "\<not> ud_has_tag dev ''dinit''"
  shows "\<exists>l. handle_device_dinit e dev d st = Some (True, d, st\<lparr>dm_log := l\<rparr>) \<and>
    wrote st (st\<lparr>dm_log := l\<rparr>) (news lk d (if dv_removed d then 0 else 1) (conns st))"
  using ready_news [OF assms(1), of "if dv_removed d then 0 else 1" d st] assms(2,3)
  by (auto simp: handle_device_dinit_def Let_def)

lemma device_remove_frame:
  "device_remove d st = (d', st') \<Longrightarrow>
     conns st' = conns st \<and> dm_log st' = dm_log st \<and> map_sys st' = map_sys st \<and> dv_removed d' = dv_removed d \<and>
     dv_name d' = [] \<and> (dv_subsys d \<noteq> ''net'' \<longrightarrow> map_dev st' = (map_dev st)(dv_name d := None) \<or> dv_name d = []) \<and>
     (dv_subsys d = ''net'' \<longrightarrow> map_netif st' = (map_netif st)(dv_name d := None) \<or> dv_name d = [])"
  by (auto simp: device_remove_def Let_def split: if_splits)

lemma untagged_removal:
  assumes "io_ok lk e" and "map_sys st k = Some d" and "\<not> dv_removed d" and "\<not> dv_has_tag d"
    and "ud_syspath dev = Some k" and "ud_subsystem dev = Some ssys" and "ud_action dev = Some ''remove''"
    and "\<not> ud_has_tag dev ''dinit''" and "map_usb st (ud_devnum dev) = None"
    and "tagged \<longrightarrow> ssys \<notin> set notag_subsys"
  shows "\<exists>st'. resolve_device e (Some dev) tagged st = Some (True, st') \<and>
    wrote st st' (news lk d 0 (conns st)) \<and>
    conns st' = conns st \<and> device_status (Some k) st' = Some 0 \<and>
    (dv_subsys d \<noteq> ''net'' \<and> dv_name d \<noteq> [] \<longrightarrow> map_dev st' (dv_name d) = None) \<and>
    (dv_subsys d = ''net'' \<and> dv_name d \<noteq> [] \<longrightarrow> map_netif st' (dv_name d) = None)"
proof -
  let ?d = "d\<lparr>dv_removed := True\<rparr>"
  obtain l where h: "handle_device_dinit e dev ?d st = Some (True, ?d, st\<lparr>dm_log := l\<rparr>)"
    "wrote st (st\<lparr>dm_log := l\<rparr>) (news lk d 0 (conns st))"
    using untagged_ready [OF assms(1), of ?d dev st] assms(4,8) by auto
  let ?st1 = "st\<lparr>dm_log := l\<rparr>"
  obtain d2 st2 where r: "device_remove ?d ?st1 = (d2, st2)" by fastforce
  have u: "remove_usb (ud_devnum dev) k st = (Some k, st)" using assms(9) by (simp add: remove_usb_def)
  have "resolve_device e (Some dev) tagged st = Some (True, put_dev k d2 st2)"
    using assms(2,3,5-7,10) by (auto simp: resolve_device_def remove_device_def u h r)
  then show ?thesis
    using device_remove_frame [OF r] h(2) by (auto simp: put_dev_def device_status_def wrote_def)
qed


lemma device_init_frame:
  "device_init dev n d st = (d', st') \<Longrightarrow>
     conns st' = conns st \<and> dm_log st' = dm_log st \<and> map_sys st' = map_sys st \<and> map_usb st' = map_usb st \<and> \<not> dv_removed d' \<and>
     dv_has_tag d' = dv_has_tag d \<and> dv_processing d' = dv_processing d \<and> dv_syspath d' = dv_syspath d \<and>
     dv_subsys d' = dv_subsys d"
  by (auto simp: device_init_def init_dev_def init_net_def Let_def split: if_splits option.splits)

text \<open>
  When a new device without the dinit tag arrives, it is entered under its path with its
  subsystem and its node or interface name, every connection that watches it is told 1 and nothing
  else is written, the connections stay, and the device counts as present.
\<close>

lemma untagged_arrival_told:
  assumes "io_ok lk e" and "map_sys st k = None" and "ud_syspath dev = Some k" and "ud_subsystem dev = Some ssys"
    and "ssys \<noteq> ''usb''" and "ud_action dev = Some act" and "act \<notin> {''bind'', ''unbind'', ''remove''}"
    and "\<not> ud_has_tag dev ''dinit''" and "tagged \<longrightarrow> ssys \<notin> set notag_subsys"
  shows "\<exists>st' d. resolve_device e (Some dev) tagged st = Some (True, st') \<and> map_sys st' k = Some d \<and>
    wrote st st' (news lk d 1 (conns st)) \<and>
    conns st' = conns st \<and> map_usb st' = map_usb st \<and> \<not> dv_removed d \<and> \<not> dv_has_tag d \<and>
    dv_syspath d = k \<and> dv_subsys d = ssys \<and>
    dv_name d = (case if ssys = ''net'' then ud_sysname dev else ud_devnode dev of Some n \<Rightarrow> n | None \<Rightarrow> []) \<and>
    dv_mac d = (case if ssys = ''net'' then ud_sysattr dev ''address'' else None of Some m \<Rightarrow> m | None \<Rightarrow> []) \<and>
    device_status (Some k) st' = Some 1"
proof -
  let ?d0 = "new_device\<lparr>dv_syspath := k, dv_subsys := ssys\<rparr>"
  obtain d1 st1 where i: "device_init dev 0 ?d0 st = (d1, st1)" by fastforce
  note f = device_init_frame [OF i]
  have d1: "\<not> dv_has_tag d1" "\<not> dv_removed d1" "\<not> dv_processing d1" "dv_syspath d1 = k" "dv_subsys d1 = ssys"
    using f by (auto simp: new_device_def)
  have name: "dv_name d1 = (case if ssys = ''net'' then ud_sysname dev else ud_devnode dev of Some n \<Rightarrow> n | None \<Rightarrow> [])"
    "dv_mac d1 = (case if ssys = ''net'' then ud_sysattr dev ''address'' else None of Some m \<Rightarrow> m | None \<Rightarrow> [])"
    using i by (auto simp: device_init_def init_dev_def init_net_def Let_def new_device_def split: if_splits option.splits)
  obtain l where h: "handle_device_dinit e dev d1 st1 = Some (True, d1, st1\<lparr>dm_log := l\<rparr>)"
    "wrote st1 (st1\<lparr>dm_log := l\<rparr>) (news lk d1 1 (conns st1))"
    using untagged_ready [OF assms(1) d1(1) assms(8), of st1] d1(2) by auto
  have "resolve_device e (Some dev) tagged st = Some (True, put_dev k d1 (st1\<lparr>dm_log := l\<rparr>))"
    using assms(2-9) by (auto simp: resolve_device_def add_device_def device_key_def add_new_def i h)
  then show ?thesis
    using f h(2) d1 name by (auto simp: put_dev_def device_status_def wrote_def)
qed

section \<open>Devices with a tag\<close>

text \<open>Requests to dinit can always be issued.\<close>

definition issue_ok :: "dm_env \<Rightarrow> bool" where
  "issue_ok e \<longleftrightarrow> (\<forall>l c. de_issue e l c)"

lemma issue_ok_simp:
  "issue_ok e \<Longrightarrow> issue e c cb st = (True, st\<lparr>dm_log := dm_log st @ [c], dm_reqs := dm_reqs st @ [cb]\<rparr>)"
  by (simp add: issue_def issue_ok_def)

text \<open>\<open>process\<close> when nothing is pending: the handle is closed, the clients are told, and the device is idle.\<close>

definition closing :: "device \<Rightarrow> dm_cb list" where
  "closing d = (case dv_device_svc d of None \<Rightarrow> [] | Some _ \<Rightarrow> [CbFinish])"

lemma close_device_svc_ok:
  assumes "issue_ok e"
  shows "\<exists>st'. close_device_svc e d st = (True, st') \<and> wrote st st' {#} \<and> conns st' = conns st \<and>
    map_sys st' = map_sys st \<and> dm_reqs st' = dm_reqs st @ closing d"
  using assms
  by (cases "dv_device_svc d") (auto simp: close_device_svc_def closing_def async_defs issue_ok_simp wrote_def)

lemma process_tells:
  assumes "io_ok lk e" and "issue_ok e"
  shows "\<exists>st1. wrote st st1 (news lk d (if dv_removal d then 0 else 1) (conns st)) \<and> conns st1 = conns st \<and>
    map_sys st1 = map_sys st \<and> dm_reqs st1 = dm_reqs st @ closing d \<and>
    process e d st =
      (let d = d\<lparr>dv_device_svc := None, dv_dsvcset := dv_psvcset d, dv_psvcset := dv_nsvcset d, dv_nsvcset := []\<rparr>
       in if \<not> dv_pending d then Some (True, d\<lparr>dv_processing := False\<rparr>, st1)
          else Some (True, d\<lparr>dv_pending := False, dv_removal := dv_removed d, dv_processing := True\<rparr>,
                 st1\<lparr>dm_log := dm_log st1 @ [DmLoad (''device@'' @ dv_syspath d) (dv_removed d) (CbDevLoad (dv_syspath d))],
                     dm_reqs := dm_reqs st1 @ [CbDevLoad (dv_syspath d)]\<rparr>))"
proof -
  obtain st0 where c: "close_device_svc e d st = (True, st0)" "wrote st st0 {#}" "conns st0 = conns st" "map_sys st0 = map_sys st"
    "dm_reqs st0 = dm_reqs st @ closing d"
    using close_device_svc_ok [OF assms(2)] by blast
  obtain st1 where r: "ready e (if dv_removal d then 0 else 1) d st0 = Some st1"
    "wrote st0 st1 (news lk d (if dv_removal d then 0 else 1) (conns st0))" "\<exists>l. st1 = st0\<lparr>dm_log := l\<rparr>"
    using ready_news [OF assms(1)] by blast
  have "wrote st st1 (news lk d (if dv_removal d then 0 else 1) (conns st))"
    using wrote_trans [OF c(2) r(2)] c(3) by simp
  moreover have "conns st1 = conns st" "map_sys st1 = map_sys st" "dm_reqs st1 = dm_reqs st @ closing d"
    using r(3) c by auto
  ultimately show ?thesis
    using c(1) r(1) by (intro exI [of _ st1]) (simp add: process_def Let_def async_defs issue_ok_simp [OF assms(2)])
qed

lemma dev_at_put: "dev_at (put_dev k d st) k = d"
  by (simp add: dev_at_def put_dev_def)

text \<open>A reply that settles a service at once: it could not be loaded, or it is started.\<close>

definition immediate :: "dm_reply \<Rightarrow> bool" where
  "immediate r \<longleftrightarrow> rp_ret r > 0 \<or> rp_ret r = 0 \<and> rp_started r"

lemma sub_reply:
  assumes "issue_ok e" and "immediate r" and "dm_reqs st = CbSubLoad removal k # rq"
  shows "\<exists>st' rq'. dinit_event e (EvReply 0 r) st = svc_done e k st' \<and> wrote st st' {#} \<and> conns st' = conns st \<and>
    map_sys st' = map_sys st \<and> dm_reqs st' = rq @ rq'"
proof (cases "rp_ret r > 0")
  case True
  then have "dinit_event e (EvReply 0 r) st = svc_done e k (st\<lparr>dm_reqs := rq @ []\<rparr>)"
    using assms(3) by (simp add: dinit_event_def dinit_subsvc_load_cb_base_def)
  then show ?thesis
    by (intro exI [of _ "st\<lparr>dm_reqs := rq @ []\<rparr>"] exI [of _ "[]"]) (auto intro: wrote_same)
next
  case False
  let ?c = "DmDepend (dv_device_svc (dev_at st k)) (rp_handle r) removal (\<not> removal) (CbDepNoWake (rp_handle r))"
  let ?st = "st\<lparr>dm_log := dm_log st @ [?c], dm_reqs := rq @ [CbDepNoWake (rp_handle r)]\<rparr>"
  have "dinit_event e (EvReply 0 r) st = svc_done e k ?st"
    using False assms
    by (simp add: dinit_event_def dinit_subsvc_load_cb_base_def immediate_def async_defs issue_ok_simp dev_at_def Let_def)
  moreover have "wrote st ?st {#}" by (rule wrote_call [of _ _ ?c]) simp_all
  moreover have "conns ?st = conns st" "map_sys ?st = map_sys st" "dm_reqs ?st = rq @ [CbDepNoWake (rp_handle r)]" by simp_all
  ultimately show ?thesis by blast
qed

text \<open>The device after the last service has been settled.\<close>

definition idle_after :: "device \<Rightarrow> device \<Rightarrow> bool" where
  "idle_after d d' \<longleftrightarrow>
     \<not> dv_processing d' \<and> dv_device_svc d' = None \<and> dv_psvcset d' = dv_nsvcset d \<and> dv_pending d' = dv_pending d \<and>
     dv_removed d' = dv_removed d \<and> dv_removal d' = dv_removal d \<and> dv_has_tag d' = dv_has_tag d \<and>
     dv_syspath d' = dv_syspath d \<and> dv_subsys d' = dv_subsys d \<and> dv_name d' = dv_name d \<and> dv_mac d' = dv_mac d"

lemma services_answered:
  assumes "io_ok lk e" and "issue_ok e" and "map_sys st k = Some d" and "\<not> dv_pending d"
    and "dv_pending_svcs d = of_nat (length rs)" and "rs \<noteq> []" and "length rs < 2 ^ 64"
    and "list_all immediate rs" and "dm_reqs st = replicate (length rs) (CbSubLoad False k) @ rq"
  shows "\<exists>st' d'. foldo (dinit_event e) (map (EvReply 0) rs) st = Some st' \<and> map_sys st' k = Some d' \<and>
    idle_after d d' \<and> conns st' = conns st \<and> wrote st st' (news lk d (if dv_removal d then 0 else 1) (conns st))"
  using assms(3-)
proof (induction rs arbitrary: st d rq)
  case (Cons r rs)
  let ?n = "dv_pending_svcs d - 1" and ?d1 = "d\<lparr>dv_pending_svcs := dv_pending_svcs d - 1\<rparr>"
  have n: "?n = of_nat (length rs)" using Cons.prems(3) by simp
  obtain st0 rq' where e1: "dinit_event e (EvReply 0 r) st = svc_done e k st0" "wrote st st0 {#}" "conns st0 = conns st"
    "map_sys st0 = map_sys st" "dm_reqs st0 = (replicate (length rs) (CbSubLoad False k) @ rq) @ rq'"
    using sub_reply [OF assms(2), of r st False k "replicate (length rs) (CbSubLoad False k) @ rq"] Cons.prems by auto
  let ?st1 = "put_dev k ?d1 st0"
  have st1: "map_sys ?st1 k = Some ?d1" "conns ?st1 = conns st" "dev_at ?st1 k = ?d1" "wrote st ?st1 {#}"
    "dm_reqs ?st1 = replicate (length rs) (CbSubLoad False k) @ rq @ rq'"
    using e1 by (simp_all add: put_dev_def dev_at_def wrote_def)
  have done1: "svc_done e k st0 = (if ?n = 0 then process_or_abort e k ?st1 else Some ?st1)"
    using Cons.prems(1) e1(4) by (simp add: svc_done_def Let_def dev_at_def)
  show ?case
  proof (cases "rs = []")
    case True
    let ?d2 = "?d1\<lparr>dv_device_svc := None, dv_dsvcset := dv_psvcset d, dv_psvcset := dv_nsvcset d, dv_nsvcset := [],
      dv_processing := False\<rparr>"
    obtain st2 where p: "wrote ?st1 st2 (news lk d (if dv_removal d then 0 else 1) (conns st))" "conns st2 = conns st"
      "process e ?d1 ?st1 = Some (True, ?d2, st2)"
      using process_tells [OF assms(1,2), of ?st1 ?d1] Cons.prems(2) st1(2) by (auto simp: Let_def)
    have "foldo (dinit_event e) (map (EvReply 0) (r # rs)) st = Some (put_dev k ?d2 st2)"
      using True n p(3) by (simp add: e1(1) done1 process_or_abort_def dev_at_put)
    moreover have "wrote st (put_dev k ?d2 st2) (news lk d (if dv_removal d then 0 else 1) (conns st))"
      using wrote_trans [OF st1(4) p(1)] by (simp add: wrote_def put_dev_def)
    moreover have "idle_after d ?d2" using Cons.prems(2) by (simp add: idle_after_def)
    ultimately show ?thesis using p(2) by (simp add: put_dev_def)
  next
    case False
    have "?n \<noteq> 0" unfolding n using False Cons.prems(5) by (auto simp: word_of_nat_eq_0_iff dest!: dvd_imp_le)
    then have s: "foldo (dinit_event e) (map (EvReply 0) (r # rs)) st = foldo (dinit_event e) (map (EvReply 0) rs) ?st1"
      by (simp add: e1(1) done1)
    obtain st' d' where r: "foldo (dinit_event e) (map (EvReply 0) rs) ?st1 = Some st'" "map_sys st' k = Some d'"
      "idle_after ?d1 d'" "conns st' = conns st" "wrote ?st1 st' (news lk d (if dv_removal d then 0 else 1) (conns st))"
      using Cons.IH [OF st1(1), of "rq @ rq'"] Cons.prems n False st1 by auto
    then show ?thesis
      using wrote_trans [OF st1(4) r(5)] s by (auto simp: idle_after_def)
  qed
qed simp

lemma load_loop_ok:
  assumes "issue_ok e"
  shows "map_sys st k = Some d \<Longrightarrow> \<exists>st'. load_loop e k del svcs st = (True, st') \<and> wrote st st' {#} \<and> conns st' = conns st \<and>
    dm_reqs st' = dm_reqs st @ replicate (length svcs) (CbSubLoad del k) \<and>
    map_sys st' k = Some (d\<lparr>dv_pending_svcs := dv_pending_svcs d + of_nat (length svcs)\<rparr>)"
proof (induction svcs arbitrary: st d)
  case Nil
  then show ?case by (simp add: wrote_same)
next
  case (Cons svc svcs)
  let ?c = "DmLoad svc del (CbSubLoad del k)" and ?d = "d\<lparr>dv_pending_svcs := dv_pending_svcs d + 1\<rparr>"
  let ?st = "put_dev k ?d (st\<lparr>dm_log := dm_log st @ [?c], dm_reqs := dm_reqs st @ [CbSubLoad del k]\<rparr>)"
  have w: "wrote st ?st {#}" by (rule wrote_call [of _ _ ?c]) (simp_all add: put_dev_def)
  have l: "load_loop e k del (svc # svcs) st = load_loop e k del svcs ?st"
    using Cons.prems by (simp add: async_defs issue_ok_simp [OF assms] dev_at_def Let_def)
  have "map_sys ?st k = Some ?d" by (simp add: put_dev_def)
  from Cons.IH [OF this] obtain st' where "load_loop e k del svcs ?st = (True, st')" "wrote ?st st' {#}"
    "conns st' = conns st" "dm_reqs st' = dm_reqs st @ replicate (length (svc # svcs)) (CbSubLoad del k)"
    "map_sys st' k = Some (d\<lparr>dv_pending_svcs := dv_pending_svcs d + of_nat (length (svc # svcs))\<rparr>)"
    by (auto simp: put_dev_def replicate_append_same algebra_simps)
  then show ?case unfolding l using wrote_trans [OF w] by fastforce
qed

text \<open>
  The device service was loaded and the dependency added: then the services of the device are
  requested.
\<close>

lemma device_loaded:
  assumes "issue_ok e" and "map_sys st k = Some d" and "dm_reqs st = [CbDevLoad k]" and "rp_ret r1 = 0"
    and "dv_dsvcset d = []"
  shows "\<exists>st' h. foldo (dinit_event e) [EvReply 0 r1, EvReply 0 r2] st = Some st' \<and> wrote st st' {#} \<and> conns st' = conns st \<and>
    dm_reqs st' = replicate (length (dv_psvcset d)) (CbSubLoad False k) \<and>
    map_sys st' k = Some (d\<lparr>dv_device_svc := h, dv_pending_svcs := of_nat (length (dv_psvcset d))\<rparr>)"
proof -
  let ?d1 = "d\<lparr>dv_device_svc := Some (rp_handle r1)\<rparr>"
  let ?c = "DmDepend (Some (de_system e)) (rp_handle r1) (dv_removal d) (\<not> dv_removal d) (CbDevAdd k)"
  let ?st1 = "put_dev k ?d1 (st\<lparr>dm_log := dm_log st @ [?c], dm_reqs := [CbDevAdd k]\<rparr>)"
  have e1: "dinit_event e (EvReply 0 r1) st = Some ?st1"
    using assms
    by (simp add: dinit_event_def dinit_devsvc_load_cb_def Let_def async_defs issue_ok_simp dev_at_def put_dev_def)
  let ?d2 = "?d1\<lparr>dv_pending_svcs := 0\<rparr>"
  let ?st2 = "put_dev k ?d2 (?st1\<lparr>dm_reqs := []\<rparr>)"
  have "map_sys ?st2 k = Some ?d2" by (simp add: put_dev_def)
  from load_loop_ok [OF assms(1) this, of False "dv_psvcset d"]
  obtain st3 where l: "load_loop e k False (dv_psvcset d) ?st2 = (True, st3)" "wrote ?st2 st3 {#}" "conns st3 = conns st"
    "dm_reqs st3 = replicate (length (dv_psvcset d)) (CbSubLoad False k)"
    "map_sys st3 k = Some (?d2\<lparr>dv_pending_svcs := of_nat (length (dv_psvcset d))\<rparr>)"
    by (auto simp: put_dev_def)
  have "dinit_devsvc_add_cb e k (?st1\<lparr>dm_reqs := []\<rparr>) = st3"
    using l(1) assms(5) by (simp add: dinit_devsvc_add_cb_def Let_def dev_at_def put_dev_def)
  then have "dinit_event e (EvReply 0 r2) ?st1 = Some st3"
    by (simp add: dinit_event_def put_dev_def)
  moreover have "wrote st ?st2 {#}" by (rule wrote_call [of _ _ ?c]) (simp_all add: put_dev_def)
  then have "wrote st st3 {#}" using wrote_trans [OF _ l(2)] by fastforce
  ultimately show ?thesis using e1 l(3-5) by auto
qed

text \<open>A tagged device that is not being processed gets an event.\<close>

definition wanted :: "udev_device \<Rightarrow> device \<Rightarrow> string list" where
  "wanted dev d =
     (if dv_removed d then []
      else svc_set_of (case ud_property dev ''DINIT_WAITS_FOR'' of Some s \<Rightarrow> s | None \<Rightarrow> []))"

definition begun :: "udev_device \<Rightarrow> device \<Rightarrow> device" where
  "begun dev d = d\<lparr>dv_has_tag := True, dv_device_svc := None, dv_dsvcset := dv_psvcset d,
     dv_psvcset := wanted dev d, dv_nsvcset := [], dv_pending := False, dv_removal := dv_removed d,
     dv_processing := True\<rparr>"

lemma svc_set_of_empty: "svc_set_of [] = []"
  by (simp add: svc_set_of_def svc_words.simps)

lemma tagged_event:
  assumes "io_ok lk e" and "issue_ok e" and "dv_has_tag d \<or> ud_has_tag dev ''dinit''" and "\<not> dv_processing d"
  shows "\<exists>st'. handle_device_dinit e dev d st = Some (True, begun dev d, st') \<and>
    wrote st st' (news lk d (if dv_removal d then 0 else 1) (conns st)) \<and> conns st' = conns st \<and> map_sys st' = map_sys st \<and>
    dm_reqs st' = dm_reqs st @ closing d @ [CbDevLoad (dv_syspath d)]"
proof -
  define d0 where "d0 = d\<lparr>dv_has_tag := True, dv_nsvcset := wanted dev d, dv_pending := True\<rparr>"
  have tag: "(if dv_has_tag d then d else d\<lparr>dv_has_tag := ud_has_tag dev ''dinit''\<rparr>) = d\<lparr>dv_has_tag := True\<rparr>"
    using assms(3) by (cases d) auto
  have h: "handle_device_dinit e dev d st = process e d0 st"
    unfolding handle_device_dinit_def tag Let_def using assms(4)
    by (simp add: d0_def wanted_def svc_set_of_empty)
  have d0: "news lk d0 = news lk d" "closing d0 = closing d" "dv_removal d0 = dv_removal d" "dv_pending d0" "dv_syspath d0 = dv_syspath d"
    by (simp_all add: d0_def closing_def)
  have b: "d0\<lparr>dv_device_svc := None, dv_dsvcset := dv_psvcset d0, dv_psvcset := dv_nsvcset d0, dv_nsvcset := [],
      dv_pending := False, dv_removal := dv_removed d0, dv_processing := True\<rparr> = begun dev d"
    by (simp add: begun_def d0_def)
  obtain st1 where p: "wrote st st1 (news lk d (if dv_removal d then 0 else 1) (conns st))" "conns st1 = conns st"
    "map_sys st1 = map_sys st" "dm_reqs st1 = dm_reqs st @ closing d"
    "process e d0 st = Some (True, begun dev d,
       st1\<lparr>dm_log := dm_log st1 @ [DmLoad (''device@'' @ dv_syspath d) (dv_removed d0) (CbDevLoad (dv_syspath d))],
           dm_reqs := dm_reqs st1 @ [CbDevLoad (dv_syspath d)]\<rparr>)"
    using process_tells [OF assms(1,2), of st d0] d0 b by (auto simp: Let_def)
  let ?c = "DmLoad (''device@'' @ dv_syspath d) (dv_removed d0) (CbDevLoad (dv_syspath d))"
  let ?st = "st1\<lparr>dm_log := dm_log st1 @ [?c], dm_reqs := dm_reqs st1 @ [CbDevLoad (dv_syspath d)]\<rparr>"
  have "wrote st1 ?st {#}" by (rule wrote_call [of _ _ ?c]) simp_all
  then have "wrote st ?st (news lk d (if dv_removal d then 0 else 1) (conns st))"
    using wrote_trans [OF p(1)] by fastforce
  then show ?thesis using p h by (intro exI [of _ ?st]) simp
qed

lemma device_init_fresh:
  "device_init dev n (new_device\<lparr>dv_syspath := k, dv_subsys := ssys\<rparr>) st = (d, st') \<Longrightarrow>
     \<not> dv_removal d \<and> dv_psvcset d = [] \<and> dv_device_svc d = None \<and> map_sys st' = map_sys st \<and> dm_reqs st' = dm_reqs st"
  by (auto simp: device_init_def init_dev_def init_net_def new_device_def Let_def split: if_splits option.splits)


lemma device_remove_device:
  "device_remove d st = (d', st') \<Longrightarrow>
     dv_processing d' = dv_processing d \<and> dv_psvcset d' = dv_psvcset d \<and> dv_dsvcset d' = dv_dsvcset d \<and>
     dv_has_tag d' = dv_has_tag d \<and> dm_reqs st' = dm_reqs st"
  by (auto simp: device_remove_def Let_def split: if_splits)


lemma calm_io: "io_ok (\<lambda>p. NotLink) calm_env"
  by (simp add: io_ok_def calm_env_def)

lemma calm_issue: "issue_ok calm_env"
  by (simp add: issue_ok_def calm_env_def)

text \<open>
  C12: ready tells exactly the connections that watch the device, each once: by its path, unless it
  is a USB device, which is watched as such; a network interface also by its name and its hardware
  address; any other device also by its node, directly or through a link.
\<close>

theorem ready_tells:
  assumes "io_ok lk e"
  shows "\<exists>ws. ready e b d st = Some (st\<lparr>dm_log := dm_log st @ ws\<rparr>) \<and>
    mset ws = {#DmWrite (cn_fd cn) b. cn \<in># mset (filter (watches lk d) (conns st))#}"
  using ready_tells_log [OF assms] by (simp add: told_bytes_def)

theorem ready_tells_witness:
  "\<exists>ws. ready calm_env 1 (new_device\<lparr>dv_subsys := ''net'', dv_name := ''eth0'', dv_syspath := ''/sys/e''\<rparr>)
      (dm_start\<lparr>conns := [client 8 DEVICE_NETIF ''eth0'', client 9 DEVICE_MAC ''00'', client 10 DEVICE_SYS ''/sys/e'']\<rparr>) =
      Some (dm_start\<lparr>conns := [client 8 DEVICE_NETIF ''eth0'', client 9 DEVICE_MAC ''00'', client 10 DEVICE_SYS ''/sys/e''],
        dm_log := ws\<rparr>) \<and>
    mset ws = {#DmWrite 8 1, DmWrite 10 1#}"
  using ready_tells [OF calm_io, of 1 "new_device\<lparr>dv_subsys := ''net'', dv_name := ''eth0'', dv_syspath := ''/sys/e''\<rparr>"
      "dm_start\<lparr>conns := [client 8 DEVICE_NETIF ''eth0'', client 9 DEVICE_MAC ''00'', client 10 DEVICE_SYS ''/sys/e'']\<rparr>"]
  by (simp add: watches_def client_def new_device_def dm_start_def)

text \<open>A state with one device, and the events on it.\<close>

definition tty_state :: "bool \<Rightarrow> dm" where
  "tty_state tag = dm_start\<lparr>map_dev := [''/dev/a'' \<mapsto> ''/sys/a''],
     map_sys := [''/sys/a'' \<mapsto> new_device\<lparr>dv_name := ''/dev/a'', dv_syspath := ''/sys/a'', dv_subsys := ''tty'', dv_has_tag := tag\<rparr>],
     conns := [client 8 DEVICE_DEV ''/dev/a'']\<rparr>"


lemma svc_set_of_two: "svc_set_of ''a b'' = [''b'', ''a'']"
  by code_simp



end
