(* ===== verification/Devmon_Progress.thy ===== *)
theory Devmon_Progress
  imports Devmon_Main Devmon_Notify
begin

unbundle bit_operations_syntax

text \<open>
  The state machine that drives the services of a device. The operations of the device monitor are
  the rules of a step relation; in every state that is reached the count of pending services of a
  device is the number of replies and events that are still to come, and a device that is being
  processed waits for something, unless both of its sets of services are empty.
\<close>

section \<open>Steps\<close>

text \<open>The value of \<open>DINIT_WAITS_FOR\<close> fits into memory.\<close>

definition udev_small :: "udev_device \<Rightarrow> bool" where
  "udev_small dev = (case ud_property dev ''DINIT_WAITS_FOR'' of None \<Rightarrow> True | Some s \<Rightarrow> length s < 2 ^ 63)"

inductive dm_step :: "dm_env \<Rightarrow> (dm \<Rightarrow> dinit_ev \<Rightarrow> bool) \<Rightarrow> dm \<Rightarrow> dm \<Rightarrow> bool" for e G where
  enumerated: "udev_small dev \<Longrightarrow> add_device e dev path ssys st = Some (ok, st') \<Longrightarrow> dm_step e G st st'"
| udev_event: "udev_small dev \<Longrightarrow> resolve_device e (Some dev) tagged st = Some (ok, st') \<Longrightarrow> dm_step e G st st'"
| dinit_answer: "G st ev \<Longrightarrow> dinit_event e ev st = Some st' \<Longrightarrow> dm_step e G st st'"
| connection: "handle_conn e i st = Some st' \<Longrightarrow> dm_step e G st st'"
| opened: "dm_step e G st (st\<lparr>fds := fds st @ ps\<rparr>)"
| polled: "dm_step e G st (st\<lparr>fds := set_revents rs (fds st)\<rparr>)"
| compacted: "dm_step e G st (do_compact st)"

text \<open>A request to load one of the services of a device.\<close>

fun is_sub :: "dm_cb \<Rightarrow> bool" where
  "is_sub (CbSubLoad removal k) = True"
| "is_sub _ = False"

text \<open>
  What the dinit library promises of its answers: requests do not fail, and a handle that it gives
  out is not one that is still in use.
\<close>

definition answers_ok :: "dm \<Rightarrow> dinit_ev \<Rightarrow> bool" where
  "answers_ok st ev =
     (case ev of
        EvReply i r \<Rightarrow>
          0 \<le> rp_ret r \<and>
          (i < length (dm_reqs st) \<and> is_sub (dm_reqs st ! i) \<and> rp_ret r = 0 \<longrightarrow> map_svcdev st (rp_handle r) = None)
      | EvService h \<Rightarrow> True)"

section \<open>The phases of a device\<close>

text \<open>The requests whose callbacks get a device, and the service handles whose events it awaits.\<close>

definition serves :: "string \<Rightarrow> dm_cb list \<Rightarrow> dm_cb list" where
  "serves k rq = filter (\<lambda>cb. k \<in> cb_keys cb) rq"

definition awaits :: "string \<Rightarrow> (nat \<rightharpoonup> string) \<Rightarrow> nat set" where
  "awaits k m = {h. m h = Some k}"

text \<open>A device that waits for \<open>n\<close> services.\<close>

definition waiting :: "nat \<Rightarrow> device \<Rightarrow> bool" where
  "waiting n d \<longleftrightarrow>
     n < 2 ^ 64 \<and> dv_pending_svcs d = of_nat n \<and> (n = 0 \<longrightarrow> dv_dsvcset d = [] \<and> dv_psvcset d = [])"

definition phase :: "string \<Rightarrow> dm_cb list \<Rightarrow> nat set \<Rightarrow> device \<Rightarrow> bool" where
  "phase k rs hs d =
     (if dv_processing d then
        (rs = [CbDevLoad k] \<or> rs = [CbDevAdd k]) \<and> hs = {} \<or> list_all is_sub rs \<and> waiting (length rs + card hs) d
      else rs = [] \<and> hs = {})"

definition small :: "device \<Rightarrow> bool" where
  "small d \<longleftrightarrow> length (dv_dsvcset d) < 2 ^ 63 \<and> length (dv_psvcset d) < 2 ^ 63 \<and> length (dv_nsvcset d) < 2 ^ 63"

definition prog_at :: "dm \<Rightarrow> string \<Rightarrow> device \<Rightarrow> bool" where
  "prog_at st k d \<longleftrightarrow> phase k (serves k (dm_reqs st)) (awaits k (map_svcdev st)) d \<and> small d"

text \<open>The invariant, while a device with a key in \<open>K\<close> may still have to be entered.\<close>

definition prog_in :: "string set \<Rightarrow> dm \<Rightarrow> bool" where
  "prog_in K st \<longleftrightarrow>
     finite (dom (map_svcdev st)) \<and> (\<forall>k d. map_sys st k = Some d \<longrightarrow> dv_syspath d = k) \<and> ran (map_usb st) \<subseteq> K \<and>
     (\<forall>k. prog_at st k (dev_at st k))"

definition prog :: "dm \<Rightarrow> bool" where
  "prog st \<longleftrightarrow> prog_in (dom (map_sys st)) st"

lemma serves_simps [simp]:
  "serves k [] = []"
  "serves k (a @ b) = serves k a @ serves k b"
  "serves k (cb # b) = (if k \<in> cb_keys cb then cb # serves k b else serves k b)"
  by (simp_all add: serves_def)

text \<open>Only a device and what it waits for have changed.\<close>

definition only :: "string \<Rightarrow> dm \<Rightarrow> dm \<Rightarrow> bool" where
  "only k st st' \<longleftrightarrow>
     map_usb st' = map_usb st \<and>
     (\<forall>j. j \<noteq> k \<longrightarrow> serves j (dm_reqs st') = serves j (dm_reqs st) \<and> awaits j (map_svcdev st') = awaits j (map_svcdev st))"

lemma prog_only:
  assumes "prog_in K st" and "K \<subseteq> insert k (dom (map_sys st))" and "only k st st'" and "finite (dom (map_svcdev st'))"
    and "map_sys st' = (map_sys st)(k \<mapsto> d)" and "dv_syspath d = k" and "prog_at st' k d"
  shows "prog st'"
proof -
  have "prog_at st' j (dev_at st' j)" for j
    using assms by (cases "j = k") (auto simp: prog_in_def prog_at_def only_def dev_at_def)
  then show ?thesis using assms by (auto simp: prog_def prog_in_def only_def)
qed

text \<open>The fields that the phases depend on.\<close>

definition same_prog :: "dm \<Rightarrow> dm \<Rightarrow> bool" where
  "same_prog st st' \<longleftrightarrow>
     dm_reqs st' = dm_reqs st \<and> map_svcdev st' = map_svcdev st \<and> map_sys st' = map_sys st \<and>
     map_usb st' = map_usb st"

lemma same_prog_refl [simp]: "same_prog st st"
  by (simp add: same_prog_def)

lemma same_prog_prog: "same_prog st st' \<Longrightarrow> prog st \<Longrightarrow> prog st'"
  by (auto simp: same_prog_def prog_def prog_in_def prog_at_def dev_at_def cong: option.case_cong)

lemma write_all_same: "write_all e sel b st = Some st' \<Longrightarrow> same_prog st st'"
  by (auto simp: write_all_def same_prog_def)

lemma ready_same: "ready e b d st = Some st' \<Longrightarrow> same_prog st st'"
  by (auto simp: ready_def write_gen_def write_dev_def split: bind_splits if_splits dest!: write_all_same)
    (auto simp: same_prog_def)

section \<open>Processing keeps the phases\<close>

lemma process_phase:
  assumes "issue_ok e" and "process e d st = Some (ok, d', st')" and "small d" and "dv_syspath d = k"
    and "serves k (dm_reqs st) = []"
  shows "ok" and "map_sys st' = map_sys st" and "map_svcdev st' = map_svcdev st" and "only k st st'"
    and "dv_syspath d' = k" and "small d'" and "phase k (serves k (dm_reqs st')) {} d'"
proof -
  obtain st1 where c: "close_device_svc e d st = (True, st1)" "map_sys st1 = map_sys st" "map_svcdev st1 = map_svcdev st"
    "\<And>j. serves j (dm_reqs st1) = serves j (dm_reqs st)" "map_usb st1 = map_usb st"
    using assms(1) by (cases "dv_device_svc d") (auto simp: close_device_svc_def async_defs issue_ok_simp)
  obtain st2 where r: "ready e (if dv_removal d then 0 else 1) (d\<lparr>dv_device_svc := None\<rparr>) st1 = Some st2"
    using assms(2) by (auto simp: process_def c(1) split: bind_splits)
  have p: "process e d st =
      (let d = d\<lparr>dv_device_svc := None, dv_dsvcset := dv_psvcset d, dv_psvcset := dv_nsvcset d, dv_nsvcset := []\<rparr>
       in if \<not> dv_pending d then Some (True, d\<lparr>dv_processing := False\<rparr>, st2)
          else Some (True, d\<lparr>dv_pending := False, dv_removal := dv_removed d, dv_processing := True\<rparr>,
                 st2\<lparr>dm_log := dm_log st2 @ [DmLoad (''device@'' @ dv_syspath d) (dv_removed d) (CbDevLoad (dv_syspath d))],
                     dm_reqs := dm_reqs st2 @ [CbDevLoad (dv_syspath d)]\<rparr>))"
    using r by (simp add: process_def c(1) Let_def async_defs issue_ok_simp [OF assms(1)])
  note rs = ready_same [OF r]
  have *: "ok \<and> map_sys st' = map_sys st \<and> map_svcdev st' = map_svcdev st \<and> only k st st' \<and> dv_syspath d' = k \<and> small d' \<and>
      phase k (serves k (dm_reqs st')) {} d'"
    using assms(2-5) rs c(2-5) unfolding p
    by (cases "dv_pending d") (auto simp: same_prog_def only_def small_def phase_def)
  show "ok" "map_sys st' = map_sys st" "map_svcdev st' = map_svcdev st" "only k st st'"
    "dv_syspath d' = k" "small d'" "phase k (serves k (dm_reqs st')) {} d'" using * by auto
qed

lemma svc_set_of_length: "length (svc_set_of s) \<le> length s"
proof -
  have words: "length (svc_words s) \<le> length s" for s
  proof (induction s rule: svc_words.induct)
    case (1 s)
    let ?s = "dropWhile isspace s"
    have "length (svc_words (dropWhile (\<lambda>c. \<not> isspace c) ?s)) < length s" if "takeWhile (\<lambda>c. \<not> isspace c) ?s \<noteq> []"
      using 1 [OF refl refl that] svc_words_shorter [OF that] by linarith
    then show ?case by (simp add: svc_words.simps [of s] Let_def Suc_le_eq)
  qed
  have "length (fold List.insert ws acc) \<le> length ws + length acc" for ws acc :: "string list"
  proof (induction ws arbitrary: acc)
    case (Cons w ws)
    from Cons [of acc] Cons [of "w # acc"] show ?case by (simp add: List.insert_def)
  qed simp
  from this [of "svc_words s" "[]"] words [of s] show ?thesis by (simp add: svc_set_of_def)
qed

text \<open>The fields of a device that its phase depends on.\<close>

definition same_dev :: "device \<Rightarrow> device \<Rightarrow> bool" where
  "same_dev d d' \<longleftrightarrow>
     dv_processing d' = dv_processing d \<and> dv_pending_svcs d' = dv_pending_svcs d \<and> dv_dsvcset d' = dv_dsvcset d \<and>
     dv_psvcset d' = dv_psvcset d \<and> dv_nsvcset d' = dv_nsvcset d \<and> dv_syspath d' = dv_syspath d"

lemma same_dev_phase: "same_dev d d' \<Longrightarrow> phase k rs hs d' = phase k rs hs d"
  by (simp add: same_dev_def phase_def waiting_def)

lemma same_dev_small: "same_dev d d' \<Longrightarrow> small d' = small d"
  by (simp add: same_dev_def small_def)

lemma handle_device_dinit_phase:
  assumes "issue_ok e" and "handle_device_dinit e dev d st = Some (ok, d', st')" and "udev_small dev"
    and "prog_at st k d" and "dv_syspath d = k"
  shows "ok \<and> map_sys st' = map_sys st \<and> map_svcdev st' = map_svcdev st \<and> only k st st' \<and> dv_syspath d' = k \<and> prog_at st' k d'"
proof -
  have svcs: "length (svc_set_of (if c then [] else case ud_property dev ''DINIT_WAITS_FOR'' of Some s \<Rightarrow> s | None \<Rightarrow> [])) < 2 ^ 63" for c
    using assms(3) svc_set_of_length by (auto simp: udev_small_def svc_set_of_empty intro: le_less_trans split: option.splits)
  define d1 where "d1 = (if dv_has_tag d then d else d\<lparr>dv_has_tag := ud_has_tag dev ''dinit''\<rparr>)"
  have d1: "same_dev d d1" by (simp add: d1_def same_dev_def)
  have p1: "prog_at st k d1" using assms(4) d1 by (simp add: prog_at_def same_dev_phase same_dev_small)
  show ?thesis
  proof (cases "dv_has_tag d1")
    case False
    then have r: "ready e (if dv_removed d1 then 0 else 1) d1 st = Some st'" "ok" "d' = d1"
      using assms(2) by (auto simp: handle_device_dinit_def Let_def d1_def [symmetric])
    then show ?thesis using ready_same [OF r(1)] p1 assms(5) d1 by (simp add: same_prog_def only_def prog_at_def same_dev_def)
  next
    case True
    define w where "w = (if dv_removed d1 then [] else case ud_property dev ''DINIT_WAITS_FOR'' of Some s \<Rightarrow> s | None \<Rightarrow> [])"
    define d2 where "d2 = d1\<lparr>dv_nsvcset := svc_set_of w, dv_pending := True\<rparr>"
    have h: "(if dv_processing d2 then Some (True, d2, st) else process e d2 st) = Some (ok, d', st')"
      using assms(2) True unfolding handle_device_dinit_def Let_def d1_def [symmetric] w_def [symmetric] d2_def [symmetric] by simp
    have d2: "dv_syspath d2 = k" "small d2" "phase k (serves k (dm_reqs st)) (awaits k (map_svcdev st)) d2"
      using assms(5) d1 p1 svcs [of "dv_removed d1"] by (auto simp: w_def [symmetric] d2_def same_dev_def prog_at_def small_def phase_def waiting_def)
    show ?thesis
    proof (cases "dv_processing d2")
      case True
      then show ?thesis using h d2 by (auto simp: only_def prog_at_def)
    next
      case False
      then have "serves k (dm_reqs st) = []" "awaits k (map_svcdev st) = {}" "process e d2 st = Some (ok, d', st')"
        using d2 h by (auto simp: phase_def)
      then show ?thesis using process_phase [OF assms(1), of d2 st ok d' st' k] d2 by (auto simp: prog_at_def)
    qed
  qed
qed

section \<open>Devices keep the phases\<close>

lemma device_init_same: "device_init dev n d st = (d', st') \<Longrightarrow> same_dev d d' \<and> same_prog st st'"
  by (auto simp: device_init_def init_dev_def init_net_def same_dev_def same_prog_def Let_def split: if_splits option.splits)

lemma set_dev_same: "set_dev e n d st = Some (d', st') \<Longrightarrow> same_dev d d' \<and> same_prog st st'"
  by (auto simp: set_dev_def write_dev_def Let_def split: if_splits option.splits bind_splits dest!: write_all_same)
    (auto simp: same_dev_def same_prog_def)

lemma set_ifname_same: "set_ifname e n d st = Some (d', st') \<Longrightarrow> same_dev d d' \<and> same_prog st st'"
  by (auto simp: set_ifname_def write_gen_def Let_def split: if_splits option.splits bind_splits dest!: write_all_same)
    (auto simp: same_dev_def same_prog_def)

lemma set_mac_same: "set_mac e n d st = Some (d', st') \<Longrightarrow> same_dev d d' \<and> same_prog st st'"
  by (auto simp: set_mac_def write_gen_def Let_def split: if_splits option.splits bind_splits dest!: write_all_same)
    (auto simp: same_dev_def same_prog_def)

lemma device_set_same: "device_set e dev n d st = Some (d', st') \<Longrightarrow> same_dev d d' \<and> same_prog st st'"
  by (auto simp: device_set_def split: if_splits bind_splits dest!: set_dev_same set_ifname_same set_mac_same)
    (auto simp: same_dev_def same_prog_def)

lemma device_remove_same: "device_remove d st = (d', st') \<Longrightarrow> same_dev d d' \<and> same_prog st st'"
  by (auto simp: device_remove_def same_dev_def same_prog_def Let_def split: if_splits)

text \<open>An entry that is stored with the phase it has.\<close>

lemma prog_store:
  assumes "prog_in K st" and "K \<subseteq> insert k (dom (map_sys st))" and "map_sys st' = map_sys st" and "map_svcdev st' = map_svcdev st"
    and "only k st st'" and "dv_syspath d = k" and "prog_at st' k d"
  shows "prog (put_dev k d st')"
proof (rule prog_only [OF assms(1,2)])
  show "prog_at (put_dev k d st') k d" using assms(7) by (simp add: prog_at_def put_dev_def)
  show "only k st (put_dev k d st')" using assms(5) by (simp add: only_def put_dev_def)
qed (use assms in \<open>auto simp: put_dev_def prog_in_def\<close>)

lemma prog_at_same: "prog_at st k d \<Longrightarrow> same_prog st st' \<Longrightarrow> same_dev d d' \<Longrightarrow> prog_at st' k d'"
  by (simp add: prog_at_def same_prog_def same_dev_phase same_dev_small)

lemma phase_fields:
  "phase k rs hs (d\<lparr>dv_syspath := x\<rparr>) = phase k rs hs d" "phase k rs hs (d\<lparr>dv_subsys := x\<rparr>) = phase k rs hs d"
  "phase k rs hs (d\<lparr>dv_removed := b\<rparr>) = phase k rs hs d" "phase k rs hs (d\<lparr>dv_devset := X\<rparr>) = phase k rs hs d"
  by (simp_all add: phase_def waiting_def)

text \<open>The end of \<open>add_device\<close> and \<open>remove_device\<close>, up to what they do to the other fields.\<close>

lemma handled:
  assumes "issue_ok e" and "prog_in K st" and "K \<subseteq> insert k (dom (map_sys st))" and "same_prog st st1" and "udev_small dev"
    and "prog_at st k d" and "dv_syspath d = k" and "same_dev d d1"
    and "handle_device_dinit e dev d1 st1 = Some (ok, d2, st2)" and "same_prog st2 st3" and "same_dev d2 d3"
  shows "prog (put_dev k d3 st3)"
proof -
  have "prog_at st1 k d1" using assms(6,4,8) by (rule prog_at_same)
  moreover have "dv_syspath d1 = k" using assms(7,8) by (simp add: same_dev_def)
  ultimately have h: "map_sys st2 = map_sys st1" "map_svcdev st2 = map_svcdev st1" "only k st1 st2" "dv_syspath d2 = k" "prog_at st2 k d2"
    using handle_device_dinit_phase [OF assms(1,9,5), of k] by auto
  show ?thesis
  proof (rule prog_store [OF assms(2,3)])
    show "prog_at st3 k d3" using h(5) assms(10,11) by (rule prog_at_same)
  qed (use h assms(4,10,11) in \<open>auto simp: same_prog_def only_def same_dev_def\<close>)
qed

lemma new_prog_at: "prog st \<Longrightarrow> map_sys st k = None \<Longrightarrow> prog_at st k new_device"
  unfolding prog_def prog_in_def dev_at_def by (metis option.simps(4))

lemma old_prog_at: "prog st \<Longrightarrow> map_sys st k = Some d \<Longrightarrow> prog_at st k d \<and> dv_syspath d = k"
  unfolding prog_def prog_in_def dev_at_def by (metis option.simps(5))

lemma progD: "prog st \<Longrightarrow> prog_in (dom (map_sys st)) st"
  by (simp add: prog_def)

lemma add_new_prog:
  assumes "issue_ok e" and "prog st" and "udev_small dev" and "prog_at st k d" and "add_new e dev k ssys n d st = Some (ok, st')"
  shows "prog st'"
proof -
  let ?d = "d\<lparr>dv_syspath := k, dv_subsys := ssys\<rparr>"
  obtain d1 st1 where i: "device_init dev n ?d st = (d1, st1)" by fastforce
  define usb where "usb m = (if n \<noteq> 0 then m(n \<mapsto> k) else m)" for m :: "nat \<rightharpoonup> string"
  let ?st = "st\<lparr>map_usb := usb (map_usb st)\<rparr>" and ?st1 = "st1\<lparr>map_usb := usb (map_usb st1)\<rparr>"
  have "(if n \<noteq> 0 then st1\<lparr>map_usb := (map_usb st1)(n \<mapsto> k)\<rparr> else st1) = ?st1" by (simp add: usb_def)
  then obtain d2 st2 where h: "handle_device_dinit e dev d1 ?st1 = Some (ok, d2, st2)" "st' = put_dev k d2 st2"
    using assms(5) by (auto simp: add_new_def i Let_def split: bind_splits)
  have u: "ran (usb m) \<subseteq> insert k (ran m)" for m by (auto simp: usb_def ran_def)
  have "prog_in (insert k (dom (map_sys st))) ?st"
    using progD [OF assms(2)] u [of "map_usb st"] by (auto simp: prog_in_def prog_at_def dev_at_def cong: option.case_cong)
  moreover have "prog_at ?st k ?d" using assms(4) by (simp add: prog_at_def small_def phase_fields)
  moreover have "same_prog ?st ?st1" "same_dev ?d d1" using device_init_same [OF i] by (simp_all add: same_prog_def)
  ultimately show ?thesis
    unfolding h(2) by (intro handled [OF assms(1) _ _ _ assms(3) _ _ _ h(1)]) (auto simp: same_dev_def)
qed

lemma set_handled:
  assumes "issue_ok e" and "prog st" and "udev_small dev" and "map_sys st k = Some d"
    and "device_set e dev n d st = Some (d1, st1)" and "handle_device_dinit e dev d1 st1 = Some (ok, d2, st2)"
  shows "prog (put_dev k d2 st2)"
  by (rule handled [OF assms(1) progD [OF assms(2)] _ _ assms(3) _ _ _ assms(6)])
    (use device_set_same [OF assms(5)] old_prog_at [OF assms(2,4)] in \<open>auto simp: same_dev_def\<close>)

lemma add_device_prog:
  assumes "issue_ok e" and "prog st" and "udev_small dev" and "add_device e dev sysp ssys st = Some (ok, st')"
  shows "prog st'"
proof (cases "device_key dev sysp ssys")
  case None
  then show ?thesis using assms(2,4) by (simp add: add_device_def)
next
  case (Some kn)
  obtain k n where k: "device_key dev sysp ssys = Some (k, n)" using Some by (cases kn) auto
  note new = add_new_prog [OF assms(1-3)]
  show ?thesis
  proof (cases "map_sys st k")
    case None
    then show ?thesis using assms(4) k new new_prog_at [OF assms(2) None] by (simp add: add_device_def)
  next
    case (Some d)
    show ?thesis
    proof (cases "dv_removed d")
      case True
      then show ?thesis using assms(4) k Some new [of k d] old_prog_at [OF assms(2) Some] by (simp add: add_device_def)
    next
      case False
      then show ?thesis
        using assms(4) k Some set_handled [OF assms(1-3) Some] by (auto simp: add_device_def split: bind_splits)
    qed
  qed
qed

lemma remove_usb_prog:
  assumes "prog st" and "remove_usb n sysp st = (k, st')"
  shows "prog st'"
proof (cases "n = 0 \<or> map_usb st n = None")
  case True
  then show ?thesis using assms by (auto simp: remove_usb_def split: if_splits)
next
  case False
  then obtain j where j: "map_usb st n = Some j" by auto
  then obtain d where d: "map_sys st j = Some d" using assms(1) by (auto simp: prog_def prog_in_def ran_def)
  let ?d = "d\<lparr>dv_devset := dv_devset d - {n}\<rparr>" and ?st = "st\<lparr>map_usb := (map_usb st)(n := None)\<rparr>"
  have "st' = put_dev j ?d ?st"
    using assms(2) False j d by (auto simp: remove_usb_def dev_at_def Let_def put_dev_commute split: if_splits)
  moreover have "prog_in (dom (map_sys st)) ?st"
    using progD [OF assms(1)] ran_erase [of "map_usb st" n]
    by (auto simp: prog_in_def prog_at_def dev_at_def cong: option.case_cong)
  moreover have "prog_at ?st j ?d" "dv_syspath ?d = j"
    using old_prog_at [OF assms(1) d] by (auto simp: prog_at_def small_def phase_fields)
  ultimately show ?thesis by (auto simp: only_def intro: prog_store)
qed

lemma remove_device_prog:
  assumes "issue_ok e" and "prog st" and "udev_small dev" and "remove_device e dev sysp st = Some (ok, st')"
  shows "prog st'"
proof -
  obtain k st1 where u: "remove_usb (ud_devnum dev) sysp st = (k, st1)" by fastforce
  have p: "prog st1" by (rule remove_usb_prog [OF assms(2) u])
  have rest: "prog (put_dev j d3 st3)"
    if "map_sys st1 j = Some d" "handle_device_dinit e dev (d\<lparr>dv_removed := True\<rparr>) st1 = Some (ok2, d2, st2)"
      "same_prog st2 st3" "same_dev d2 d3" for j d ok2 d2 st2 d3 st3
    by (rule handled [OF assms(1) progD [OF p] _ _ assms(3) _ _ _ that(2-4)])
      (use old_prog_at [OF p that(1)] in \<open>auto simp: same_dev_def\<close>)
  have same: "same_dev d d" for d by (simp add: same_dev_def)
  show ?thesis
    using assms(4) p
    by (auto simp: remove_device_def u intro: rest same dest: device_remove_same
        split: option.splits if_splits bind_splits prod.splits)
qed

lemma resolve_device_prog:
  assumes "issue_ok e" and "prog st" and "udev_small dev" and "resolve_device e (Some dev) tagged st = Some (ok, st')"
  shows "prog st'"
  using assms(4) add_device_prog [OF assms(1-3)] remove_device_prog [OF assms(1-3)] assms(2)
  by (auto simp: resolve_device_def split: option.splits if_splits bind_splits)

section \<open>Answers keep the phases\<close>

text \<open>A service is settled, where \<open>hs\<close> are the handles that are still awaited.\<close>

lemma svc_done_phase:
  assumes "issue_ok e" and "svc_done e k st = Some st'" and "map_sys st k = Some d" and "dv_syspath d = k" and "small d"
    and "dv_processing d" and "list_all is_sub (serves k (dm_reqs st))" and "finite hs"
    and "waiting (Suc (length (serves k (dm_reqs st)) + card hs)) d"
  shows "\<exists>d'. map_sys st' = (map_sys st)(k \<mapsto> d') \<and> map_svcdev st' = map_svcdev st \<and> only k st st' \<and>
    dv_syspath d' = k \<and> small d' \<and> phase k (serves k (dm_reqs st')) hs d'"
proof -
  let ?n = "length (serves k (dm_reqs st)) + card hs"
  let ?d = "d\<lparr>dv_pending_svcs := dv_pending_svcs d - 1\<rparr>" and ?st = "put_dev k (d\<lparr>dv_pending_svcs := dv_pending_svcs d - 1\<rparr>) st"
  have n: "dv_pending_svcs d - 1 = of_nat ?n" "?n < 2 ^ 64" using assms(9) by (auto simp: waiting_def)
  then have z: "dv_pending_svcs d - 1 = 0 \<longleftrightarrow> ?n = 0"
    by (auto simp: word_of_nat_eq_0_iff simp del: of_nat_add dest!: dvd_imp_le)
  have s: "svc_done e k st = (if ?n = 0 then process_or_abort e k ?st else Some ?st)"
    using assms(3) z by (simp add: svc_done_def dev_at_def Let_def)
  show ?thesis
  proof (cases "?n = 0")
    case True
    then have empty: "serves k (dm_reqs ?st) = []" "hs = {}" using assms(8) by (auto simp: put_dev_def)
    obtain ok d' st1 where p: "process e ?d ?st = Some (ok, d', st1)" "st' = (if ok then put_dev k d' st1 else dinit_abort (put_dev k d' st1))"
      using assms(2) unfolding s if_P [OF True] process_or_abort_def dev_at_put by (auto simp: Let_def split: bind_splits)
    note q = process_phase [OF assms(1) p(1), of k]
    have "small ?d" "dv_syspath ?d = k" using assms(4,5) by (auto simp: small_def)
    then show ?thesis
      using q empty p(2) by (intro exI [of _ d']) (auto simp: put_dev_def only_def)
  next
    case False
    have "phase k (serves k (dm_reqs ?st)) hs ?d"
      using assms(6,7) n False by (auto simp: phase_def waiting_def put_dev_def)
    then show ?thesis
      using assms(2,4,5) False unfolding s by (intro exI [of _ ?d]) (auto simp: put_dev_def only_def small_def)
  qed
qed

lemma prog_same_requests:
  assumes "prog st" and "map_sys st' = map_sys st" and "map_svcdev st' = map_svcdev st" and "map_usb st' = map_usb st"
    and "\<And>k. serves k (dm_reqs st') = serves k (dm_reqs st)"
  shows "prog st'"
  using assms by (auto simp: prog_def prog_in_def prog_at_def dev_at_def cong: option.case_cong)

lemma awaited_busy:
  assumes "prog st" and "serves k (dm_reqs st) \<noteq> [] \<or> awaits k (map_svcdev st) \<noteq> {}"
  shows "\<exists>d. map_sys st k = Some d \<and> dv_syspath d = k \<and> small d \<and> dv_processing d \<and>
    phase k (serves k (dm_reqs st)) (awaits k (map_svcdev st)) d"
proof (cases "map_sys st k")
  case None
  then show ?thesis using new_prog_at [OF assms(1) None] assms(2) by (simp add: prog_at_def phase_def new_device_def)
next
  case (Some d)
  then show ?thesis using old_prog_at [OF assms(1) Some] assms(2) by (auto simp: prog_at_def phase_def split: if_splits)
qed

lemma finite_awaits: "prog st \<Longrightarrow> finite (awaits k (map_svcdev st))"
  by (rule finite_subset [of _ "dom (map_svcdev st)"]) (auto simp: awaits_def prog_def prog_in_def)

text \<open>How the state after a callback is shown to have the invariant: only the device of the callback matters.\<close>

lemma prog_answer:
  assumes "prog st" and "map_sys st' = (map_sys st)(k \<mapsto> d)" and "finite (dom (map_svcdev st'))" and "only k st st'"
    and "dv_syspath d = k" and "small d" and "phase k (serves k (dm_reqs st')) (awaits k (map_svcdev st')) d"
  shows "prog st'"
  using prog_only [OF progD [OF assms(1)] _ assms(4,3,2,5)] assms(6,7) by (auto simp: prog_at_def)

lemma prog_finite: "prog st \<Longrightarrow> finite (dom (map_svcdev st))"
  by (simp add: prog_def prog_in_def)

lemma process_or_abort_phase:
  assumes "issue_ok e" and "process_or_abort e k st = Some st'" and "map_sys st k = Some d" and "dv_syspath d = k" and "small d"
    and "serves k (dm_reqs st) = []"
  shows "\<exists>d'. map_sys st' = (map_sys st)(k \<mapsto> d') \<and> map_svcdev st' = map_svcdev st \<and> only k st st' \<and>
    dv_syspath d' = k \<and> small d' \<and> phase k (serves k (dm_reqs st')) {} d'"
proof -
  obtain ok d' st1 where p: "process e d st = Some (ok, d', st1)" "st' = (if ok then put_dev k d' st1 else dinit_abort (put_dev k d' st1))"
    using assms(2,3) unfolding process_or_abort_def by (auto simp: Let_def dev_at_def split: bind_splits)
  then show ?thesis
    using process_phase [OF assms(1) p(1) assms(5,4,6)] by (intro exI [of _ d']) (auto simp: put_dev_def only_def)
qed

lemma load_loop_phase:
  assumes "issue_ok e"
  shows "map_sys st k = Some d \<Longrightarrow>
    \<exists>st'. load_loop e k del svcs st = (True, st') \<and> map_svcdev st' = map_svcdev st \<and> map_usb st' = map_usb st \<and>
      map_sys st' = (map_sys st)(k \<mapsto> d\<lparr>dv_pending_svcs := dv_pending_svcs d + of_nat (length svcs)\<rparr>) \<and>
      dm_reqs st' = dm_reqs st @ replicate (length svcs) (CbSubLoad del k)"
proof (induction svcs arbitrary: st d)
  case Nil
  then show ?case by (auto simp: fun_upd_idem)
next
  case (Cons svc svcs)
  let ?d = "d\<lparr>dv_pending_svcs := dv_pending_svcs d + 1\<rparr>"
  let ?st = "put_dev k ?d (st\<lparr>dm_log := dm_log st @ [DmLoad svc del (CbSubLoad del k)], dm_reqs := dm_reqs st @ [CbSubLoad del k]\<rparr>)"
  have l: "load_loop e k del (svc # svcs) st = load_loop e k del svcs ?st"
    using Cons.prems by (simp add: async_defs issue_ok_simp [OF assms] dev_at_def Let_def)
  have "map_sys ?st k = Some ?d" by (simp add: put_dev_def)
  from Cons.IH [OF this] show ?case unfolding l by (auto simp: put_dev_def add.assoc replicate_append_same fun_eq_iff)
qed

lemma serves_replicate [simp]: "serves j (replicate n (CbSubLoad del k)) = (if j = k then replicate n (CbSubLoad del k) else [])"
  by (simp add: serves_def)

lemma is_sub_replicate [simp]: "list_all is_sub (replicate n (CbSubLoad del k))"
  by (induction n) auto

lemma devsvc_load_prog:
  assumes "issue_ok e" and "prog st" and "dm_reqs st = a @ CbDevLoad k # b" and "0 \<le> rp_ret r"
    and "dinit_devsvc_load_cb e k r (st\<lparr>dm_reqs := a @ b\<rparr>) = Some st'"
  shows "prog st'"
proof -
  obtain d where d: "map_sys st k = Some d" "dv_syspath d = k" "small d" "dv_processing d"
    "phase k (serves k (dm_reqs st)) (awaits k (map_svcdev st)) d"
    using awaited_busy [OF assms(2), of k] assms(3) by auto
  then have e: "serves k (a @ b) = []" "awaits k (map_svcdev st) = {}"
    using assms(3) by (auto simp: phase_def append_eq_Cons_conv)
  let ?d = "d\<lparr>dv_device_svc := Some (rp_handle r)\<rparr>"
  let ?st = "put_dev k ?d (st\<lparr>dm_reqs := a @ b\<rparr>)"
  have o: "only k st ?st" using assms(3) by (simp add: only_def put_dev_def)
  have at: "dev_at (st\<lparr>dm_reqs := a @ b\<rparr>) k = d" using d(1) by (simp add: dev_at_def)
  show ?thesis
  proof (cases "rp_ret r > 0")
    case True
    then have p: "process_or_abort e k ?st = Some st'" using assms(5) by (simp add: dinit_devsvc_load_cb_def Let_def at)
    have s: "map_sys ?st k = Some ?d" "dv_syspath ?d = k" "small ?d" "serves k (dm_reqs ?st) = []"
      using d(2,3) e(1) by (auto simp: put_dev_def small_def)
    obtain d' where q: "map_sys st' = (map_sys ?st)(k \<mapsto> d')" "map_svcdev st' = map_svcdev ?st" "only k ?st st'"
      "dv_syspath d' = k" "small d'" "phase k (serves k (dm_reqs st')) {} d'"
      using process_or_abort_phase [OF assms(1) p s] by blast
    show ?thesis
      by (rule prog_answer [OF assms(2), of _ k d'])
        (use q o e(2) prog_finite [OF assms(2)] in \<open>auto simp: put_dev_def only_def\<close>)
  next
    case False
    then have st': "dm_reqs st' = a @ b @ [CbDevAdd k]" "map_sys st' = (map_sys st)(k \<mapsto> ?d)" "map_svcdev st' = map_svcdev st"
      "map_usb st' = map_usb st"
      using assms(4,5) at by (auto simp: dinit_devsvc_load_cb_def Let_def async_defs issue_ok_simp [OF assms(1)] put_dev_def)
    show ?thesis
      by (rule prog_answer [OF assms(2) st'(2)])
        (use st' d e assms(3) prog_finite [OF assms(2)] in \<open>auto simp: only_def small_def phase_def\<close>)
  qed
qed

lemma devsvc_add_prog:
  assumes "issue_ok e" and "prog st" and "dm_reqs st = a @ CbDevAdd k # b"
  shows "prog (dinit_devsvc_add_cb e k (st\<lparr>dm_reqs := a @ b\<rparr>))"
proof -
  obtain d where d: "map_sys st k = Some d" "dv_syspath d = k" "small d" "dv_processing d"
    "phase k (serves k (dm_reqs st)) (awaits k (map_svcdev st)) d"
    using awaited_busy [OF assms(2), of k] assms(3) by auto
  then have e: "serves k (a @ b) = []" "awaits k (map_svcdev st) = {}"
    using assms(3) by (auto simp: phase_def append_eq_Cons_conv)
  let ?d = "d\<lparr>dv_pending_svcs := 0\<rparr>"
  let ?st = "put_dev k ?d (st\<lparr>dm_reqs := a @ b\<rparr>)"
  have "map_sys ?st k = Some ?d" by (simp add: put_dev_def)
  from load_loop_phase [OF assms(1) this, of True "dv_dsvcset d"]
  obtain st1 where 1: "load_loop e k True (dv_dsvcset d) ?st = (True, st1)" "map_svcdev st1 = map_svcdev st" "map_usb st1 = map_usb st"
    "map_sys st1 = (map_sys st)(k \<mapsto> d\<lparr>dv_pending_svcs := of_nat (length (dv_dsvcset d))\<rparr>)"
    "dm_reqs st1 = a @ b @ replicate (length (dv_dsvcset d)) (CbSubLoad True k)"
    by (auto simp: put_dev_def)
  let ?n = "length (dv_dsvcset d) + length (dv_psvcset d)"
  have "map_sys st1 k = Some (d\<lparr>dv_pending_svcs := of_nat (length (dv_dsvcset d))\<rparr>)" using 1(4) by simp
  from load_loop_phase [OF assms(1) this, of False "dv_psvcset d"]
  obtain st2 where 2: "load_loop e k False (dv_psvcset d) st1 = (True, st2)" "map_svcdev st2 = map_svcdev st" "map_usb st2 = map_usb st"
    "map_sys st2 = (map_sys st)(k \<mapsto> d\<lparr>dv_pending_svcs := of_nat ?n\<rparr>)"
    "dm_reqs st2 = a @ b @ replicate (length (dv_dsvcset d)) (CbSubLoad True k) @ replicate (length (dv_psvcset d)) (CbSubLoad False k)"
    using 1 by auto
  have "dinit_devsvc_add_cb e k (st\<lparr>dm_reqs := a @ b\<rparr>) = st2"
    using d(1) 1 2(1) by (simp add: dinit_devsvc_add_cb_def Let_def dev_at_def put_dev_def)
  moreover have "prog st2"
    by (rule prog_answer [OF assms(2) 2(4)])
      (use 2 d e assms(3) prog_finite [OF assms(2)] in \<open>auto simp: only_def small_def phase_def waiting_def\<close>)
  ultimately show ?thesis by simp
qed

lemma settled:
  assumes "issue_ok e" and "prog st0" and "svc_done e k st = Some st'" and "map_sys st0 k = Some d" and "dv_syspath d = k" and "small d"
    and "dv_processing d" and "map_sys st = map_sys st0" and "map_usb st = map_usb st0" and "finite (dom (map_svcdev st))"
    and "\<And>j. j \<noteq> k \<Longrightarrow> serves j (dm_reqs st) = serves j (dm_reqs st0) \<and> awaits j m = awaits j (map_svcdev st0)"
    and "list_all is_sub (serves k (dm_reqs st))" and "waiting (Suc (length (serves k (dm_reqs st)) + card (awaits k m))) d"
    and "finite (dom m)"
  shows "map_svcdev st' = map_svcdev st \<and> prog (st'\<lparr>map_svcdev := m\<rparr>)"
proof -
  have f: "finite (awaits k m)" by (rule finite_subset [OF _ assms(14)]) (auto simp: awaits_def)
  have d: "map_sys st k = Some d" using assms(4,8) by simp
  obtain d' where q: "map_sys st' = (map_sys st)(k \<mapsto> d')" "map_svcdev st' = map_svcdev st" "only k st st'"
    "dv_syspath d' = k" "small d'" "phase k (serves k (dm_reqs st')) (awaits k m) d'"
    using svc_done_phase [OF assms(1,3) d assms(5-7,12) f assms(13)] by blast
  have "prog (st'\<lparr>map_svcdev := m\<rparr>)"
    by (rule prog_answer [OF assms(2), of _ k d']) (use q assms(8-11,14) in \<open>auto simp: only_def\<close>)
  then show ?thesis using q(2) by simp
qed

lemma subsvc_load_prog:
  assumes "issue_ok e" and "prog st" and "dm_reqs st = a @ CbSubLoad removal k # b" and "0 \<le> rp_ret r"
    and "rp_ret r = 0 \<longrightarrow> map_svcdev st (rp_handle r) = None"
    and "dinit_subsvc_load_cb_base e k removal r (st\<lparr>dm_reqs := a @ b\<rparr>) = Some st'"
  shows "prog st'"
proof -
  obtain d where d: "map_sys st k = Some d" "dv_syspath d = k" "small d" "dv_processing d"
    "phase k (serves k (dm_reqs st)) (awaits k (map_svcdev st)) d"
    using awaited_busy [OF assms(2), of k] assms(3) by auto
  let ?n = "length (serves k (a @ b)) + card (awaits k (map_svcdev st))"
  have w: "list_all is_sub (serves k (a @ b))" "waiting (Suc ?n) d"
    using d(4,5) assms(3) by (auto simp: phase_def append_eq_Cons_conv)
  let ?st = "st\<lparr>dm_reqs := a @ b\<rparr>"
  note fin = prog_finite [OF assms(2)]
  have done1: "prog st'" if "svc_done e k (st\<lparr>dm_log := l, dm_reqs := a @ b @ rq\<rparr>) = Some st'" "\<And>j. serves j rq = []" for l rq
    using settled [OF assms(1,2) that(1) d(1-4), of "map_svcdev st"] that(2) w fin assms(3)
    by (auto dest!: sym [of "map_svcdev st'"])
  show ?thesis
  proof (cases "rp_ret r > 0")
    case True
    then show ?thesis using assms(6) done1 [where l = "dm_log st" and rq = "[]"] by (simp add: dinit_subsvc_load_cb_base_def)
  next
    case False
    then have z: "rp_ret r = 0" using assms(4) by simp
    show ?thesis
    proof (cases "removal \<or> rp_started r")
      case True
      then show ?thesis
        using assms(6) z done1 [where rq = "[CbDepNoWake (rp_handle r)]"]
        by (auto simp: dinit_subsvc_load_cb_base_def Let_def async_defs issue_ok_simp [OF assms(1)])
    next
      case False
      let ?m = "(map_svcdev st)(rp_handle r \<mapsto> k)"
      have h: "map_svcdev st (rp_handle r) = None" using assms(5) z by simp
      then have st': "map_svcdev st' = ?m" "map_sys st' = map_sys st" "map_usb st' = map_usb st"
        "dm_reqs st' = a @ b @ [CbDep (rp_handle r)]"
        using assms(6) z False
        by (auto simp: dinit_subsvc_load_cb_base_def Let_def async_defs issue_ok_simp [OF assms(1)] emplace_def)
      have aw: "awaits k ?m = insert (rp_handle r) (awaits k (map_svcdev st))" "rp_handle r \<notin> awaits k (map_svcdev st)"
        "\<And>j. j \<noteq> k \<Longrightarrow> awaits j ?m = awaits j (map_svcdev st)"
        using h by (auto simp: awaits_def)
      have "phase k (serves k (dm_reqs st')) (awaits k ?m) d"
        using st'(4) w aw d(4) finite_awaits [OF assms(2), of k] by (simp add: phase_def)
      then show ?thesis
        using st' aw d(1-3) fin assms(3) by (intro prog_answer [OF assms(2), of _ k d]) (auto simp: only_def fun_upd_idem)
    qed
  qed
qed

lemma service_event_prog:
  assumes "issue_ok e" and "prog st" and "handle_dinit_event e h st = Some st'"
  shows "prog st'"
proof (cases "map_svcdev st h")
  case None
  then show ?thesis using assms by (simp add: handle_dinit_event_def)
next
  case (Some k)
  let ?m = "(map_svcdev st)(h := None)"
  have h: "h \<in> awaits k (map_svcdev st)" "awaits k ?m = awaits k (map_svcdev st) - {h}"
    "\<And>j. j \<noteq> k \<Longrightarrow> awaits j ?m = awaits j (map_svcdev st)" using Some by (auto simp: awaits_def)
  obtain d where d: "map_sys st k = Some d" "dv_syspath d = k" "small d" "dv_processing d"
    "phase k (serves k (dm_reqs st)) (awaits k (map_svcdev st)) d"
    using awaited_busy [OF assms(2), of k] h(1) by auto
  have "card (awaits k (map_svcdev st)) = Suc (card (awaits k ?m))"
    unfolding h(2) using card_Suc_Diff1 [OF finite_awaits [OF assms(2)] h(1)] by (rule sym)
  then have w: "list_all is_sub (serves k (dm_reqs st))" "waiting (Suc (length (serves k (dm_reqs st)) + card (awaits k ?m))) d"
    using d(4,5) h(1) by (auto simp: phase_def)
  obtain st1 where s: "svc_done e k st = Some st1" using assms(3) Some by (auto simp: handle_dinit_event_def split: bind_splits)
  have p: "prog (st1\<lparr>map_svcdev := ?m\<rparr>)" "map_svcdev st1 = map_svcdev st"
    using settled [OF assms(1,2) s d(1-4), of ?m] w h(3) prog_finite [OF assms(2)] by auto
  have "st' = st1\<lparr>map_svcdev := ?m, dm_log := dm_log st1 @ [DmCloseHandle h], dm_reqs := dm_reqs st1 @ [CbFinish]\<rparr>"
    using assms(3) Some s p(2) by (simp add: handle_dinit_event_def async_defs issue_ok_simp [OF assms(1)])
  then show ?thesis by (intro prog_same_requests [OF p(1)]) simp_all
qed

lemma dinit_event_prog:
  assumes "issue_ok e" and "prog st" and "answers_ok st ev" and "dinit_event e ev st = Some st'"
  shows "prog st'"
proof (cases ev)
  case (EvService h)
  then show ?thesis using assms service_event_prog by (simp add: dinit_event_def)
next
  case (EvReply i r)
  show ?thesis
  proof (cases "i < length (dm_reqs st)")
    case False
    then show ?thesis using assms EvReply by (simp add: dinit_event_def)
  next
    case True
    let ?a = "take i (dm_reqs st)" and ?b = "drop (Suc i) (dm_reqs st)"
    have x: "dm_reqs st = ?a @ dm_reqs st ! i # ?b" using id_take_nth_drop [OF True] .
    have run: "run_cb e (dm_reqs st ! i) r (st\<lparr>dm_reqs := ?a @ ?b\<rparr>) = Some st'"
      using assms(4) EvReply True by (simp add: dinit_event_def)
    have r: "0 \<le> rp_ret r" "is_sub (dm_reqs st ! i) \<and> rp_ret r = 0 \<longrightarrow> map_svcdev st (rp_handle r) = None"
      using assms(3) EvReply True by (auto simp: answers_ok_def)
    have other: "prog st'" if "cb_keys (dm_reqs st ! i) = {}" "map_sys st' = map_sys st" "map_svcdev st' = map_svcdev st"
      "map_usb st' = map_usb st" "dm_reqs st' = ?a @ ?b @ rq" "\<And>j. serves j rq = []" for rq
    proof (rule prog_same_requests [OF assms(2) that(2-4)])
      fix k
      have "serves k (dm_reqs st) = serves k ?a @ serves k ?b" using arg_cong [OF x, of "serves k"] that(1) by simp
      then show "serves k (dm_reqs st') = serves k (dm_reqs st)" using that(5,6) by simp
    qed
    show ?thesis
    proof (cases "dm_reqs st ! i")
      case CbFinish
      then show ?thesis using run other [of "[]"] by auto
    next
      case (CbDevLoad k)
      then show ?thesis using run r(1) devsvc_load_prog [OF assms(1,2) x [unfolded CbDevLoad]] by simp
    next
      case (CbDevAdd k)
      then show ?thesis using run devsvc_add_prog [OF assms(1,2) x [unfolded CbDevAdd]] by simp
    next
      case (CbSubLoad removal k)
      then show ?thesis using run r subsvc_load_prog [OF assms(1,2) x [unfolded CbSubLoad]] by simp
    next
      case (CbDep h)
      then show ?thesis using run other [of "[CbFinish]"] by (auto simp: dep_cb_def issue_ok_simp [OF assms(1)])
    next
      case (CbDepNoWake h)
      then show ?thesis using run other [of "[CbFinish]"] by (auto simp: dep_nowake_cb_def async_defs issue_ok_simp [OF assms(1)])
    qed
  qed
qed

section \<open>The reachable states\<close>

lemma answer_same: "answer e nc st = Some (ok, st') \<Longrightarrow> same_prog st st'"
  by (auto simp: answer_def same_prog_def Let_def split: bind_splits option.splits)

lemma conn_input_same: "conn_input e j st = Some (ok, st') \<Longrightarrow> same_prog st st'"
  by (auto simp: conn_input_def read_value_def Let_def split: if_splits prod.splits option.splits dest!: answer_same)
    (auto simp: same_prog_def)

lemma handle_conn_same: "handle_conn e i st = Some st' \<Longrightarrow> same_prog st st'"
  by (auto simp: handle_conn_def bad_msg_def Let_def split: if_splits option.splits bind_splits dest!: conn_input_same)
    (auto simp: same_prog_def)

lemma step_prog:
  assumes "issue_ok e" and "dm_step e answers_ok st st'" and "prog st"
  shows "prog st'"
  using assms(2,3)
proof cases
  case (connection i)
  then show ?thesis using assms(3) handle_conn_same same_prog_prog by blast
next
  case (opened ps)
  have "same_prog st st'" by (simp add: opened same_prog_def)
  then show ?thesis using assms(3) by (rule same_prog_prog)
next
  case (polled rs)
  have "same_prog st st'" by (simp add: polled same_prog_def)
  then show ?thesis using assms(3) by (rule same_prog_prog)
next
  case compacted
  have "same_prog st st'" by (simp add: compacted same_prog_def do_compact_def)
  then show ?thesis using assms(3) by (rule same_prog_prog)
qed (use assms in \<open>auto intro: add_device_prog resolve_device_prog dinit_event_prog\<close>)

lemma start_prog: "prog (dm_start\<lparr>fds := ps\<rparr>)"
  by (simp add: prog_def prog_in_def prog_at_def phase_def small_def awaits_def dev_at_def dm_start_def new_device_def)

lemma reachable_prog:
  assumes "issue_ok e" and "(dm_step e answers_ok)\<^sup>*\<^sup>* (dm_start\<lparr>fds := ps\<rparr>) st"
  shows "prog st"
  using assms(2) by (induction rule: rtranclp_induct) (auto intro: start_prog step_prog [OF assms(1)])

lemma waiting_count:
  assumes "waiting n d"
  shows "unat (dv_pending_svcs d) = n" and "dv_pending_svcs d = 0 \<Longrightarrow> dv_dsvcset d = [] \<and> dv_psvcset d = []"
proof -
  show n: "unat (dv_pending_svcs d) = n" using assms by (simp add: waiting_def unat_of_nat take_bit_nat_eq_self)
  show "dv_dsvcset d = [] \<and> dv_psvcset d = []" if "dv_pending_svcs d = 0" using n that assms by (simp add: waiting_def)
qed

text \<open>
  C3: In every state that the steps of the monitor reach while dinit accepts and answers its
  requests, a device that is being processed has something to come: exactly one request for its
  device service, or one for the dependency on it, or as many replies and service events as its
  count of pending services says, so that the count never wraps; the count is zero only where both
  sets of services are empty, and then nothing will come. A device that is not being processed
  awaits nothing.
\<close>

theorem processing_not_stuck:
  assumes "issue_ok e" and "(dm_step e answers_ok)\<^sup>*\<^sup>* (dm_start\<lparr>fds := ps\<rparr>) st"
    and "map_sys st k = Some d"
  shows "if dv_processing d then
      serves k (dm_reqs st) = [CbDevLoad k] \<and> awaits k (map_svcdev st) = {} \<or>
      serves k (dm_reqs st) = [CbDevAdd k] \<and> awaits k (map_svcdev st) = {} \<or>
      list_all is_sub (serves k (dm_reqs st)) \<and>
      unat (dv_pending_svcs d) = length (serves k (dm_reqs st)) + card (awaits k (map_svcdev st)) \<and>
      (dv_pending_svcs d = 0 \<longrightarrow> dv_dsvcset d = [] \<and> dv_psvcset d = [])
    else serves k (dm_reqs st) = [] \<and> awaits k (map_svcdev st) = {}"
proof -
  have "phase k (serves k (dm_reqs st)) (awaits k (map_svcdev st)) d"
    using old_prog_at [OF reachable_prog [OF assms(1,2)] assms(3)] by (simp add: prog_at_def)
  then show ?thesis unfolding phase_def by (auto simp: waiting_count split: if_splits)
qed

theorem processing_not_stuck_witness:
  "\<exists>st d. resolve_device calm_env (Some ((udev_event ''add'' ''/sys/b'' ''drm'' ''/dev/b'')\<lparr>ud_has_tag := (\<lambda>t. t = ''dinit''),
      ud_property := [''DINIT_WAITS_FOR'' \<mapsto> ''a b'']\<rparr>)) True (dm_start\<lparr>fds := []\<rparr>) = Some (True, st) \<and>
    map_sys st ''/sys/b'' = Some d \<and> dv_processing d \<and>
    (serves ''/sys/b'' (dm_reqs st) = [CbDevLoad ''/sys/b''] \<and> awaits ''/sys/b'' (map_svcdev st) = {} \<or>
     serves ''/sys/b'' (dm_reqs st) = [CbDevAdd ''/sys/b''] \<and> awaits ''/sys/b'' (map_svcdev st) = {} \<or>
     list_all is_sub (serves ''/sys/b'' (dm_reqs st)) \<and>
     unat (dv_pending_svcs d) = length (serves ''/sys/b'' (dm_reqs st)) + card (awaits ''/sys/b'' (map_svcdev st)))"
proof -
  let ?dev = "(udev_event ''add'' ''/sys/b'' ''drm'' ''/dev/b'')\<lparr>ud_has_tag := (\<lambda>t. t = ''dinit''),
    ud_property := [''DINIT_WAITS_FOR'' \<mapsto> ''a b'']\<rparr>"
  obtain st d where st: "resolve_device calm_env (Some ?dev) True (dm_start\<lparr>fds := []\<rparr>) = Some (True, st)"
    "map_sys st ''/sys/b'' = Some d" "dv_processing d"
    by (simp add: udev_event_def resolve_device_def notag_subsys_def add_device_def device_key_def add_new_def device_init_def
        init_dev_def handle_device_dinit_def process_def close_device_svc_def ready_quiet load_async_def
        issue_ok_simp [OF calm_issue] put_dev_def new_device_def dm_start_def Let_def)
  have "udev_small ?dev" by (simp add: udev_small_def udev_event_def)
  from dm_step.udev_event [OF this st(1)]
  have "(dm_step calm_env answers_ok)\<^sup>*\<^sup>* (dm_start\<lparr>fds := []\<rparr>) st" by blast
  from processing_not_stuck [OF calm_issue this st(2)] st show ?thesis
    by (intro exI [of _ st] exI [of _ d]) (simp only: if_True, blast)
qed

end
