(* ===== verification/Devmon_Runs.thy ===== *)
theory Devmon_Runs
  imports Devmon_Progress
begin

unbundle bit_operations_syntax

text \<open>
  Every run of the device monitor, from its set-up through any number of rounds, is a sequence of the
  steps of \<open>Devmon_Progress\<close>: what holds in the reachable states holds of the program.
\<close>

section \<open>Runs of the program\<close>

definition mon_small :: "udev_device option \<Rightarrow> bool" where
  "mon_small mon = (case mon of None \<Rightarrow> True | Some dev \<Rightarrow> udev_small dev)"

definition enum_small :: "(string \<times> udev_device option) list option \<Rightarrow> bool" where
  "enum_small en = (case en of None \<Rightarrow> True | Some ds \<Rightarrow> list_all (\<lambda>(path, dev). mon_small dev) ds)"

definition round_small :: "dm_round \<Rightarrow> bool" where
  "round_small rd \<longleftrightarrow> mon_small (rd_mon1 rd) \<and> mon_small (rd_mon2 rd)"

definition steps :: "dm_env \<Rightarrow> dm \<Rightarrow> dm \<Rightarrow> bool" where
  "steps e = (dm_step e (\<lambda>_ _. True))\<^sup>*\<^sup>*"

lemma steps_refl [simp, intro!]: "steps e st st"
  by (simp add: steps_def)

lemma steps_trans: "steps e a b \<Longrightarrow> steps e b c \<Longrightarrow> steps e a c"
  unfolding steps_def by (rule rtranclp_trans)

lemma steps_step: "dm_step e (\<lambda>_ _. True) a b \<Longrightarrow> steps e a b"
  by (simp add: steps_def)

lemmas step_intros = dm_step.intros [where G = "\<lambda>_ _. True", THEN steps_step, simplified]

text \<open>The states that an operation returns are reached by steps.\<close>

definition leads :: "dm_env \<Rightarrow> dm \<Rightarrow> ('a \<times> dm) option \<Rightarrow> bool" where
  "leads e st m \<longleftrightarrow> (\<forall>r st'. m = Some (r, st') \<longrightarrow> steps e st st')"

lemma leadsI: "(\<And>r st'. m = Some (r, st') \<Longrightarrow> steps e st st') \<Longrightarrow> leads e st m"
  by (simp add: leads_def)

lemma leads_Some [simp]: "leads e st (Some (r, st')) = steps e st st'"
  by (simp add: leads_def)

lemma leads_None [simp]: "leads e st None"
  by (simp add: leads_def)

lemma leads_bind:
  assumes "leads e st m" and "\<And>r st1. leads e st1 (f (r, st1))"
  shows "leads e st (Option.bind m f)"
  using assms by (cases m) (auto simp: leads_def intro: steps_trans)

lemma leads_after: "steps e st st1 \<Longrightarrow> leads e st1 m \<Longrightarrow> leads e st m"
  by (auto simp: leads_def intro: steps_trans)

lemma foldo_steps:
  assumes "\<And>i st st'. f i st = Some st' \<Longrightarrow> steps e st st'"
  shows "foldo f is st = Some st' \<Longrightarrow> steps e st st'"
proof (induction "is" arbitrary: st)
  case (Cons i "is")
  then obtain st1 where "f i st = Some st1" "foldo f is st1 = Some st'" by (auto split: bind_splits)
  then show ?case using assms Cons.IH by (blast intro: steps_trans)
qed simp

lemma events_loop_steps: "events_loop e evs st = Some st' \<Longrightarrow> steps e st st'"
  unfolding events_loop_def by (rule foldo_steps) (auto intro: step_intros)

lemma conn_loop_steps: "conn_loop e is st = Some st' \<Longrightarrow> steps e st st'"
  unfolding conn_loop_def by (rule foldo_steps) (auto intro: step_intros)

lemma dispatch_loop_leads: "leads e st (dispatch_loop e ds st)"
proof (induction e ds st rule: dispatch_loop.induct)
  case (3 e evs ds st)
  then show ?case by (cases "events_loop e evs st") (auto intro: leads_after events_loop_steps)
qed auto

lemma resolve_device_leads: "mon_small mon \<Longrightarrow> leads e st (resolve_device e mon tagged st)"
  by (cases mon) (auto simp: resolve_device_def [of e None] mon_small_def intro!: leadsI intro: step_intros)

lemma udev_step_leads: "mon_small mon \<Longrightarrow> leads e st (udev_step e ni mon tagged st)"
  by (simp add: udev_step_def resolve_device_leads)

lemma dinit_step_leads: "leads e st (dinit_step e ni ds st)"
  by (simp add: dinit_step_def dispatch_loop_leads)

lemma accept_loop_steps: "steps e st (accept_loop afds st)"
  unfolding accept_loop_def by (rule step_intros)

lemma round_events_leads:
  assumes "round_small rd"
  shows "leads e st (round_events e rd st)"
proof -
  let ?st = "if pfd_revents (fds st ! 1) \<noteq> 0 then accept_loop (rd_accept rd) st else st"
  have conns: "leads e st (conn_loop e is st \<bind> (\<lambda>st. Some (Again, do_compact st)))" for "is" st
    by (cases "conn_loop e is st") (auto intro: steps_trans [OF conn_loop_steps] step_intros)
  have "steps e st ?st" by (simp add: accept_loop_steps)
  then show ?thesis
    unfolding round_events_def Let_def
    by (rule leads_after)
      (use assms in \<open>auto simp: round_small_def intro!: leads_bind [OF udev_step_leads] leads_bind [OF dinit_step_leads] conns\<close>)
qed

lemma main_round_leads:
  assumes "round_small rd"
  shows "leads e st (main_round e rd st)"
proof -
  have p: "steps e st (st\<lparr>fds := set_revents rs (fds st)\<rparr>)" for rs by (rule step_intros)
  have c: "steps e st (do_compact st)" for st by (rule step_intros)
  show ?thesis
    unfolding main_round_def Let_def
    by (auto split: poll_result.splits intro: c p steps_trans [OF p c] leads_after [OF p round_events_leads [OF assms]])
qed

lemma main_loop_leads: "list_all round_small rds \<Longrightarrow> leads e st (main_loop e rds st)"
  by (induction rds arbitrary: st) (auto split: round_end.splits intro!: leads_bind [OF main_round_leads])

lemma populate_loop_leads: "list_all (\<lambda>(path, dev). mon_small dev) ds \<Longrightarrow> leads e st (populate_loop e ds st)"
proof (induction ds arbitrary: st)
  case (Cons pd ds)
  obtain path dev where pd: "pd = (path, dev)" by fastforce
  have add: "leads e st (add_device e d path ssys st)" if "dev = Some d" for d ssys
    using that Cons.prems pd by (auto simp: mon_small_def intro!: leadsI intro: step_intros)
  have "leads e st (ud_subsystem d \<bind> (\<lambda>ssys. add_device e d path ssys st \<bind>
      (\<lambda>(ok, st). if ok then populate_loop e ds st else Some (False, st))))" if "dev = Some d" for d
    using Cons by (cases "ud_subsystem d") (auto intro!: leads_bind [OF add [OF that]])
  then show ?case using pd by (auto split: option.splits)
qed simp

lemma initial_populate_leads: "enum_small en \<Longrightarrow> leads e st (initial_populate e en st)"
  by (auto simp: initial_populate_def enum_small_def populate_loop_leads split: option.splits)



end
