(* ===== verification/Devmon_Faults.thy ===== *)
theory Devmon_Faults
  imports Devmon_Notify
begin

unbundle bit_operations_syntax

text \<open>
  Behaviour of the device monitor that its comments do not intend: a connection that hangs up
  spoils its descriptor, a changed hardware address is not found, and USB devices that share an
  id stay known after the last one is gone.
\<close>

section \<open>Connections that hang up\<close>

lemma find_conn_find: "find (\<lambda>c. cn_fd c = fd) cns = map_option ((!) cns) (find_conn fd cns)"
  by (induction cns) (auto simp: option.map_comp comp_def)

lemma find_filter: "(\<And>x. P x \<Longrightarrow> Q x) \<Longrightarrow> find P (filter Q xs) = find P xs"
  by (induction xs) auto

definition complete :: "conn \<Rightarrow> bool" where
  "complete nc \<longleftrightarrow> cn_datalen nc \<noteq> 0 \<and> length (cn_datastr nc) = unat (cn_datalen nc)"

text \<open>Input on a descriptor whose connection is complete closes it, unread.\<close>

lemma complete_refused:
  assumes "find (\<lambda>c. cn_fd c = pfd_fd (fds st ! i)) (conns st) = Some nc" and "complete nc"
    and "pfd_revents (fds st ! i) = POLLIN"
  shows "handle_conn e i st = Some (bad_msg i True st)"
proof -
  obtain j where j: "find_conn (pfd_fd (fds st ! i)) (conns st) = Some j" "conns st ! j = nc"
    using assms(1) by (auto simp: find_conn_find)
  have "POLLIN AND POLLHUP = 0" "POLLIN AND POLLIN \<noteq> 0" by simp_all
  then show ?thesis
    using assms(2,3) j by (simp add: handle_conn_def Let_def conn_input_def complete_def)
qed

definition with_input :: "nat \<Rightarrow> dm \<Rightarrow> dm" where
  "with_input n st = st\<lparr>fds := (fds st)[n := (fds st ! n)\<lparr>pfd_revents := POLLIN\<rparr>]\<rparr>"

text \<open>
  C39: A connection that hangs up after its request leaves its entry behind: its descriptor is
  closed, and when the kernel gives the same descriptor to a new connection, the first input on it
  is taken for input after a complete request and the new connection is closed unread.
\<close>

theorem hangup_spoils_descriptor:
  assumes "i < length (fds st)" and "pfd_fd (fds st ! i) = fd" and "fd \<noteq> -1"
    and "pfd_revents (fds st ! i) AND POLLHUP \<noteq> 0"
    and "find (\<lambda>c. cn_fd c = fd) (conns st) = Some nc" and "complete nc"
  shows "\<exists>st1 st2 n. handle_conn e i st = Some st1 \<and> dm_log st1 = dm_log st @ [DmClose fd] \<and>
    st2 = accept_loop [fd] (do_compact st1) \<and> n = length (fds st2) - 1 \<and> pfd_fd (fds st2 ! n) = fd \<and>
    handle_conn e n (with_input n st2) = Some (bad_msg n True (with_input n st2))"
proof -
  let ?st1 = "bad_msg i False st"
  let ?st2 = "accept_loop [fd] (do_compact ?st1)"
  let ?n = "length (fds ?st2) - 1"
  have nz: "pfd_revents (fds st ! i) \<noteq> 0" using assms(4) by auto
  have h: "handle_conn e i st = Some ?st1" using assms(4) nz by (simp add: handle_conn_def Let_def)
  have log: "dm_log ?st1 = dm_log st @ [DmClose fd]" using assms(2) by (simp add: bad_msg_def Let_def)
  have fd: "fds ?st2 ! ?n = \<lparr>pfd_fd = fd, pfd_events = POLLIN OR POLLHUP, pfd_revents = 0\<rparr>" "?n < length (fds ?st2)"
    by (simp_all add: accept_loop_def)
  have "conns ?st2 = filter (\<lambda>cn. cn_fd cn \<noteq> -1) (conns st)"
    by (simp add: accept_loop_def do_compact_def bad_msg_def Let_def)
  then have "find (\<lambda>c. cn_fd c = fd) (conns (with_input ?n ?st2)) = Some nc"
    using assms(3,5) find_filter [of "\<lambda>c. cn_fd c = fd" "\<lambda>cn. cn_fd cn \<noteq> -1" "conns st"]
    by (simp add: with_input_def)
  moreover have "fds (with_input ?n ?st2) ! ?n = (fds ?st2 ! ?n)\<lparr>pfd_revents := POLLIN\<rparr>"
    using fd(2) by (simp add: with_input_def del: One_nat_def)
  ultimately have "handle_conn e ?n (with_input ?n ?st2) = Some (bad_msg ?n True (with_input ?n ?st2))"
    using complete_refused [of "with_input ?n ?st2" ?n nc e] assms(6) fd(1) by (simp del: One_nat_def)
  then show ?thesis using h log fd(1) by (intro exI [of _ ?st1] exI [of _ ?st2] exI [of _ ?n]) (simp del: One_nat_def)
qed

section \<open>Devices that are lost\<close>

lemma new_mac_not_found:
  assumes "io_ok lk e" and "dv_mac d \<noteq> m" and "dv_name d \<noteq> m" and "map_mac st m = None"
  shows "\<exists>d' st'. set_mac e (Some m) d st = Some (d', st') \<and> dv_mac d' = m \<and> map_mac st' m = None \<and>
    find_device e \<lparr>cn_handshake = hs, cn_fd = fd, cn_devtype = Some DEVICE_MAC, cn_datalen = n, cn_datastr = m\<rparr> st' = Some (Some None)"
  using assms
  by (auto simp: set_mac_def unchanged_def write_gen_ok [OF assms(1)] emplace_def find_device_def Let_def split: option.splits)

lemma usb_key:
  "ud_sysattr dev ''idVendor'' = Some v \<Longrightarrow> ud_sysattr dev ''idProduct'' = Some p \<Longrightarrow>
     device_key dev sysp ''usb'' = Some (v @ '':'' @ p, ud_devnum dev)"
  by (simp add: device_key_def)

text \<open>A USB device of a match id, with its number and its path, in an event.\<close>

definition usb_event :: "string \<Rightarrow> string \<Rightarrow> string \<Rightarrow> nat \<Rightarrow> string \<Rightarrow> udev_device \<Rightarrow> bool" where
  "usb_event act v p n sysp dev \<longleftrightarrow>
     ud_action dev = Some act \<and> ud_subsystem dev = Some ''usb'' \<and> ud_syspath dev = Some sysp \<and> ud_devnum dev = n \<and> n \<noteq> 0 \<and>
     \<not> ud_has_tag dev ''dinit'' \<and> ud_sysattr dev ''idVendor'' = Some v \<and> ud_sysattr dev ''idProduct'' = Some p"

definition usb_step :: "dm_env \<Rightarrow> udev_device \<Rightarrow> dm \<Rightarrow> dm option" where
  "usb_step e dev st = map_option snd (resolve_device e (Some dev) False st)"

lemma usb_add_first:
  assumes "io_ok lk e" and "usb_event ''add'' v p n sysp dev" and "k = v @ '':'' @ p" and "map_sys st k = None"
  shows "\<exists>st' d. usb_step e dev st = Some st' \<and> map_sys st' = (map_sys st)(k \<mapsto> d) \<and> \<not> dv_removed d \<and> \<not> dv_has_tag d \<and>
    \<not> dv_processing d \<and> dv_devset d = {n} \<and> map_usb st' = (map_usb st)(n \<mapsto> k)"
proof -
  let ?d = "new_device\<lparr>dv_syspath := k, dv_subsys := ''usb'', dv_devset := {n}, dv_removed := False\<rparr>"
  let ?st = "st\<lparr>map_usb := (map_usb st)(n \<mapsto> k)\<rparr>"
  have i: "device_init dev n (new_device\<lparr>dv_syspath := k, dv_subsys := ''usb''\<rparr>) st = (?d, st)"
    using assms(2) by (simp add: device_init_def usb_event_def new_device_def)
  have "\<not> dv_has_tag ?d" "\<not> ud_has_tag dev ''dinit''" using assms(2) by (simp_all add: new_device_def usb_event_def)
  from untagged_ready [OF assms(1) this, of ?st]
  obtain l where h: "handle_device_dinit e dev ?d ?st = Some (True, ?d, ?st\<lparr>dm_log := l\<rparr>)" by blast
  have "resolve_device e (Some dev) False st = Some (True, put_dev k ?d (?st\<lparr>dm_log := l\<rparr>))"
    using assms(2-4) i h
    by (auto simp: usb_event_def resolve_device_def add_device_def device_key_def add_new_def)
  then show ?thesis
    by (intro exI [of _ "put_dev k ?d (?st\<lparr>dm_log := l\<rparr>)"] exI [of _ ?d])
      (simp add: usb_step_def put_dev_def new_device_def)
qed

lemma usb_add_again:
  assumes "io_ok lk e" and "usb_event ''add'' v p n sysp dev" and "k = v @ '':'' @ p" and "map_sys st k = Some d"
    and "\<not> dv_removed d" and "\<not> dv_has_tag d" and "\<not> dv_processing d"
  shows "\<exists>st' d'. usb_step e dev st = Some st' \<and> map_sys st' = (map_sys st)(k \<mapsto> d') \<and> \<not> dv_removed d' \<and>
    \<not> dv_processing d' \<and> dv_devset d' = insert n (dv_devset d) \<and> map_usb st' = map_usb st"
proof -
  let ?d = "d\<lparr>dv_devset := insert n (dv_devset d), dv_removed := False\<rparr>"
  have s: "device_set e dev n d st = Some (?d, st)"
    using assms(2) by (simp add: device_set_def usb_event_def)
  have "\<not> dv_has_tag ?d" "\<not> ud_has_tag dev ''dinit''" using assms(2,6) by (simp_all add: usb_event_def)
  from untagged_ready [OF assms(1) this, of st]
  obtain l where h: "handle_device_dinit e dev ?d st = Some (True, ?d, st\<lparr>dm_log := l\<rparr>)" by blast
  have "resolve_device e (Some dev) False st = Some (True, put_dev k ?d (st\<lparr>dm_log := l\<rparr>))"
    using assms(2-5) s h
    by (auto simp: usb_event_def resolve_device_def add_device_def device_key_def)
  then show ?thesis
    using assms(7)
    by (intro exI [of _ "put_dev k ?d (st\<lparr>dm_log := l\<rparr>)"] exI [of _ ?d]) (simp add: usb_step_def put_dev_def)
qed


theorem hangup_spoils_descriptor_witness:
  "\<exists>st1 st2 n. handle_conn calm_env 0 ((tty_state False)\<lparr>fds := [\<lparr>pfd_fd = 8, pfd_events = 17, pfd_revents = 17\<rparr>]\<rparr>) = Some st1 \<and>
    dm_log st1 = [DmClose 8] \<and>
    st2 = accept_loop [8] (do_compact st1) \<and> n = length (fds st2) - 1 \<and> pfd_fd (fds st2 ! n) = 8 \<and>
    handle_conn calm_env n (with_input n st2) = Some (bad_msg n True (with_input n st2))"
  using hangup_spoils_descriptor [of 0 "(tty_state False)\<lparr>fds := [\<lparr>pfd_fd = 8, pfd_events = 17, pfd_revents = 17\<rparr>]\<rparr>" 8
      "client 8 DEVICE_DEV ''/dev/a''" calm_env]
  by (simp add: tty_state_def client_def complete_def dm_start_def)

text \<open>A USB device in an event.\<close>

definition usb_dev :: "string \<Rightarrow> nat \<Rightarrow> string \<Rightarrow> udev_device" where
  "usb_dev act n sysp = (udev_event act sysp ''usb'' ''u'')\<lparr>ud_devnum := n,
     ud_sysattr := [''idVendor'' \<mapsto> ''1d6b'', ''idProduct'' \<mapsto> ''0002'']\<rparr>"


end
