(* ===== verification/DevClient.thy ===== *)
theory DevClient
  imports Prelude
begin

unbundle bit_operations_syntax

text \<open>
  The client of the device monitor, \<^verbatim>\<open>src/early/helpers/devclient.cc\<close>: it turns its argument into a
  request, sends the request to the monitor, reports readiness when the device is there and
  exits when it disappears.

  The ten bytes of the handshake are an uninitialised array in the source; what it holds
  before the assignments is a parameter. What \<open>read\<close> returns is a list of events; a run that
  has used them all is still waiting.
\<close>

section \<open>The request\<close>

text \<open>The error exits; \<open>DcCrash\<close> is the write through the null pointer of a failed \<open>strchr\<close>, and
  \<open>DcOverrun\<close> the write over the end of the array.\<close>

datatype dc_error = DcUsage | DcBadFd | DcInvalid | DcCrash | DcEmpty | DcOverrun

text \<open>The type and the name the argument asks for.\<close>

definition dc_target :: "string \<Rightarrow> dc_error + string \<times> string" where
  "dc_target devn =
     (let isdev = strneq devn ''/dev/'' 5;
          issys = strneq devn ''/sys/'' 5;
          isnet = strneq devn ''netif:'' 3;
          ismac = strneq devn ''mac:'' 4;
          isusb = strneq devn ''usb:'' 4
      in if \<not> isdev \<and> \<not> isnet \<and> \<not> ismac \<and> \<not> issys \<and> \<not> isusb then Inl DcInvalid
         else if issys then Inr (''sys'', devn)
         else if \<not> isdev then
           (case strchr devn (CHR '':'') of
              None \<Rightarrow> Inl DcCrash
            | Some col \<Rightarrow> Inr (takeWhile (\<lambda>c. c \<noteq> CHR '':'') devn, tl col))
         else Inr (''dev'', devn))"

definition bytes_of :: "string \<Rightarrow> u8 list" where
  "bytes_of s = map (\<lambda>c. of_nat (of_char c)) s"

text \<open>\<open>memcpy\<close> into an array.\<close>

definition put_bytes :: "u8 list \<Rightarrow> nat \<Rightarrow> u8 list \<Rightarrow> u8 list" where
  "put_bytes dst off src = take off dst @ src @ drop (off + length src) dst"

text \<open>\<open>devlen\<close> is an \<open>unsigned short\<close>, in little-endian order.\<close>

definition dc_devlen :: "string \<Rightarrow> u16" where
  "dc_devlen devn = of_nat (length devn)"

definition dc_handshake :: "u8 list \<Rightarrow> string \<Rightarrow> u16 \<Rightarrow> u8 list" where
  "dc_handshake wz type devlen =
     (let wz = wz[0 := 0xDD];
          wz = put_bytes wz 1 (bytes_of type)
      in put_bytes wz 8 [ucast devlen, ucast (drop_bit 8 devlen)])"

text \<open>
  Everything up to the two writes: the bytes of the handshake and of the name. \<open>fdok\<close> says
  which descriptors are valid. A type that does not fit into the ten bytes is written over the
  end of the array.
\<close>

definition dc_request :: "u8 list \<Rightarrow> string list \<Rightarrow> (int \<Rightarrow> bool) \<Rightarrow> dc_error + u8 list \<times> u8 list" where
  "dc_request wz args fdok =
     (case args of
        [devn, fd] \<Rightarrow>
          if atoi fd = 0 \<or> \<not> fdok (atoi fd) then Inl DcBadFd
          else
            (case dc_target devn of
               Inl err \<Rightarrow> Inl err
             | Inr (type, devn) \<Rightarrow>
                 let devlen = dc_devlen devn
                 in if devlen = 0 then Inl DcEmpty
                    else if 1 + length type > 10 then Inl DcOverrun
                    else Inr (dc_handshake wz type devlen, take (unat devlen) (bytes_of devn)))
      | _ \<Rightarrow> Inl DcUsage)"

section \<open>The loop\<close>

text \<open>A byte, an error, or the end of the connection, which leaves \<open>errno\<close> alone.\<close>

datatype dc_read = DcByte u8 | DcFail int | DcEof

datatype dc_out = DcReady | DcCloseFd | DcCloseSock

text \<open>The output and the exit status, \<open>None\<close> while it waits; \<open>open\<close> is \<open>fdnum >= 0\<close>.\<close>

fun dc_loop :: "bool \<Rightarrow> int \<Rightarrow> dc_read list \<Rightarrow> dc_out list \<times> nat option" where
  "dc_loop op errn [] = ([], None)"
| "dc_loop op errn (DcFail err # es) = (if err = EINTR then dc_loop op err es else ([], Some 1))"
| "dc_loop op errn (DcEof # es) = (if errn = EINTR then dc_loop op errn es else ([], Some 1))"
| "dc_loop op errn (DcByte c # es) =
     (if c \<noteq> 0 \<and> op then (case dc_loop False errn es of (out, st) \<Rightarrow> (DcReady # DcCloseFd # out, st))
      else if c = 0 \<and> \<not> op then ([DcCloseSock], Some 0)
      else dc_loop op errn es)"

section \<open>The program\<close>

text \<open>The calls before the loop; whether they succeed is a parameter. Every failure exits with status 1.\<close>

datatype dc_call = DcSocket | DcConnect | DcWriteHandshake "u8 list" | DcWriteName "u8 list"

fun dc_calls :: "(dc_call \<Rightarrow> bool) \<Rightarrow> dc_call list \<Rightarrow> bool \<times> dc_call list" where
  "dc_calls ok [] = (True, [])"
| "dc_calls ok (c # cs) = (if ok c then case dc_calls ok cs of (r, l) \<Rightarrow> (r, c # l) else (False, [c]))"

text \<open>
  The calls that were made, the output of the loop, and the exit status, \<open>None\<close> while it waits;
  \<open>Inl\<close> is an exit or a crash before the first call, or the overrun, which comes after \<open>socket\<close>.
\<close>

definition dc_main :: "(dc_call \<Rightarrow> bool) \<Rightarrow> u8 list \<Rightarrow> string list \<Rightarrow> (int \<Rightarrow> bool) \<Rightarrow> int \<Rightarrow> dc_read list
    \<Rightarrow> dc_error + dc_call list \<times> dc_out list \<times> nat option" where
  "dc_main ok wz args fdok errn reads =
     (case dc_request wz args fdok of
        Inl err \<Rightarrow> if err = DcOverrun \<and> \<not> ok DcSocket then Inr ([DcSocket], [], Some 1) else Inl err
      | Inr (hs, name) \<Rightarrow>
          (case dc_calls ok [DcSocket, DcConnect, DcWriteHandshake hs, DcWriteName name] of
             (False, l) \<Rightarrow> Inr (l, [], Some 1)
           | (True, l) \<Rightarrow>
               (case dc_loop (0 \<le> atoi (args ! 1)) errn reads of (out, st) \<Rightarrow> Inr (l, out, st))))"

section \<open>Properties\<close>

text \<open>Interruptions only set the error number.\<close>

definition dc_bytes :: "dc_read list \<Rightarrow> u8 list" where
  "dc_bytes es = List.map_filter (\<lambda>e. case e of DcByte c \<Rightarrow> Some c | _ \<Rightarrow> None) es"

definition dc_quiet :: "dc_read \<Rightarrow> bool" where
  "dc_quiet e = (case e of DcByte _ \<Rightarrow> True | DcFail err \<Rightarrow> err = EINTR | DcEof \<Rightarrow> False)"

lemma dc_loop_ready:
  "list_all dc_quiet es \<Longrightarrow>
     dc_loop False errn es = (if 0 \<in> set (dc_bytes es) then ([DcCloseSock], Some 0) else ([], None))"
  by (induction es arbitrary: errn)
    (auto simp: dc_quiet_def dc_bytes_def map_filter_simps split: dc_read.splits)

text \<open>
  C30: The client reports readiness exactly once, at the first nonzero byte, and exits with status
  0 exactly at the first zero byte after that, whatever interruptions and repeated bytes there
  are; zero bytes before the device is there change nothing.
\<close>

theorem dc_loop_protocol:
  assumes "list_all dc_quiet es"
  shows "dc_loop True errn es =
    (let bs = dropWhile (\<lambda>c. c = 0) (dc_bytes es)
     in if bs = [] then ([], None)
        else if 0 \<in> set bs then ([DcReady, DcCloseFd, DcCloseSock], Some 0)
        else ([DcReady, DcCloseFd], None))"
  using assms
  by (induction es arbitrary: errn)
    (auto simp: dc_quiet_def dc_loop_ready dc_bytes_def map_filter_simps Let_def split: dc_read.splits)

theorem dc_loop_protocol_witness:
  "dc_loop True 0 [DcByte 0, DcFail EINTR, DcByte 1, DcByte 1, DcByte 0] = ([DcReady, DcCloseFd, DcCloseSock], Some 0)"
  using dc_loop_protocol [of "[DcByte 0, DcFail EINTR, DcByte 1, DcByte 1, DcByte 0]" 0]
  by (simp add: dc_quiet_def dc_bytes_def map_filter_simps)

end
