(* ===== verification/DevProtocol.thy ===== *)
theory DevProtocol
  imports Devmon_Faults DevClient
begin

unbundle bit_operations_syntax

text \<open>
  The client and the monitor together: the bytes that \<^verbatim>\<open>src/early/helpers/devclient.cc\<close> sends, read by the
  connection code of \<^verbatim>\<open>src/early/helpers/devmon.cc\<close>.
\<close>

section \<open>The handshake\<close>

text \<open>The bytes of the client, as the monitor reads them.\<close>

definition chars_of :: "u8 list \<Rightarrow> string" where
  "chars_of bs = map (\<lambda>b. char_of (unat b)) bs"

lemma char_of_byte: "char_of (unat (of_nat (of_char c) :: u8)) = c"
proof -
  have "(of_char c :: nat) < 256" by simp
  then show ?thesis by (simp add: unat_of_nat take_bit_nat_eq_self)
qed

lemma chars_of_bytes_of [simp]: "chars_of (bytes_of s) = s"
  by (simp add: chars_of_def bytes_of_def char_of_byte comp_def)

lemma chars_of_append [simp]: "chars_of (a @ b) = chars_of a @ chars_of b"
  by (simp add: chars_of_def)

lemma length_chars_of [simp]: "length (chars_of bs) = length bs"
  by (simp add: chars_of_def)

lemma length_bytes_of [simp]: "length (bytes_of s) = length s"
  by (simp add: bytes_of_def)

lemma char_of_codes: "char_of (221 :: nat) = CHR 0xDD" "char_of (0 :: nat) = NUL"
  by code_simp+

text \<open>The first eight bytes, with what was in the array after the type, and the length.\<close>

lemma handshake_bytes:
  assumes "length wz = 10" and "length ty \<le> 7"
  shows "chars_of (dc_handshake wz ty n) =
    (CHR 0xDD # ty @ chars_of (take (7 - length ty) (drop (1 + length ty) wz))) @
    chars_of [ucast n, ucast (drop_bit 8 n)]"
proof -
  have "take 8 (put_bytes (wz[0 := 0xDD]) 1 (bytes_of ty)) = 0xDD # bytes_of ty @ take (7 - length ty) (drop (1 + length ty) wz)"
    using assms by (cases wz) (auto simp: put_bytes_def take_Cons' min_def)
  moreover have "length (put_bytes (wz[0 := 0xDD]) 1 (bytes_of ty)) = 10"
    using assms by (simp add: put_bytes_def)
  ultimately have "dc_handshake wz ty n = 0xDD # bytes_of ty @ take (7 - length ty) (drop (1 + length ty) wz) @
      [ucast n, ucast (drop_bit 8 n)]"
    by (simp add: dc_handshake_def Let_def put_bytes_def)
  then show ?thesis by (simp add: chars_of_def bytes_of_def char_of_byte comp_def char_of_codes)
qed

lemma type_cases: "handshake_type ty = Some t \<Longrightarrow> ty \<in> {''dev'', ''sys'', ''netif'', ''mac'', ''usb''}"
  by (auto simp: handshake_type_def split: if_splits)

lemma type_extended: "handshake_type ty = Some t \<Longrightarrow> handshake_type (ty @ x) \<noteq> None \<longleftrightarrow> x = []"
  by (drule type_cases) (auto simp: handshake_type_def)

lemma cstr_append: "NUL \<notin> set a \<Longrightarrow> cstr (a @ b) = a @ cstr b"
  by (auto simp: cstr_def takeWhile_append)

lemma cstr_chars_empty: "bs \<noteq> [] \<Longrightarrow> cstr (chars_of bs) = [] \<longleftrightarrow> hd bs = 0"
proof (cases bs)
  case (Cons b r)
  have "char_of (unat b) = NUL \<longleftrightarrow> b = 0"
  proof
    assume "char_of (unat b) = NUL"
    then have "of_char (char_of (unat b)) = (0 :: nat)" by simp
    then show "b = 0" using unsigned_less [where 'a = nat, of b] by (simp add: of_char_of unat_eq_zero)
  qed (simp add: char_of_codes)
  then show ?thesis using Cons by (simp add: cstr_def chars_of_def)
qed simp

lemma u16_bytes: "u16_of_bytes (char_of (unat (ucast n :: u8))) (char_of (unat (ucast (drop_bit 8 n) :: u8))) = n" for n :: u16
proof -
  have "unat (ucast n :: u8) = unat n mod 256"
    by (simp add: unsigned_ucast_eq take_bit_eq_mod)
  moreover have "unat (ucast (drop_bit 8 n) :: u8) = unat n div 256"
    using unsigned_less [where 'a = nat, of n] by (simp add: unsigned_ucast_eq unsigned_drop_bit_eq drop_bit_eq_div take_bit_eq_mod unat_div_distrib)
  moreover have "unat n div 256 < 256" using unsigned_less [where 'a = nat, of n] by simp
  ultimately have "of_char (char_of (unat (ucast n :: u8))) + 256 * of_char (char_of (unat (ucast (drop_bit 8 n) :: u8))) = unat n"
    by (simp add: of_char_of)
  then show ?thesis by (simp add: u16_of_bytes_def)
qed

lemma handshake_accepted:
  assumes "length wz = 10" and "handshake_type ty = Some t"
    and "de_read e l fd 8 = Inr (take 8 (chars_of (dc_handshake wz ty n)))" and "cn_fd nc = fd"
  shows "fst (read_handshake e nc l) =
    (if wz ! (1 + length ty) = 0 \<and> wz ! 7 = 0
     then Some (nc\<lparr>cn_handshake := take 8 (chars_of (dc_handshake wz ty n)), cn_devtype := Some t\<rparr>)
     else None)"
proof -
  let ?rest = "take (7 - length ty) (drop (1 + length ty) wz)"
  let ?hs = "CHR 0xDD # ty @ chars_of ?rest"
  have ty: "length ty \<le> 5" "NUL \<notin> set ty" using type_cases [OF assms(2)] by auto
  have rest: "?rest \<noteq> []" "hd ?rest = wz ! (1 + length ty)" "length ?rest = 7 - length ty" "last ?rest = wz ! 7"
    using assms(1) ty by (auto simp: hd_drop_conv_nth hd_take last_conv_nth nth_append)
  have hs: "take 8 (chars_of (dc_handshake wz ty n)) = ?hs"
    using handshake_bytes [OF assms(1), of ty n] ty rest(3) by simp
  have len: "length ?hs = 8" using ty rest(3) by simp
  have "?hs ! 7 = last ?hs" using last_conv_nth [of ?hs] unfolding len by simp
  also have "\<dots> = char_of (unat (wz ! 7))"
    using rest(1,4) by (simp add: chars_of_def last_map del: take_eq_Nil)
  finally have last: "?hs ! 7 = NUL \<longleftrightarrow> wz ! 7 = 0" using cstr_chars_empty [of "[wz ! 7]"]
    by (simp add: cstr_def chars_of_def split: if_splits)
  have type: "handshake_type (cstr (tl ?hs)) = (if wz ! (1 + length ty) = 0 then Some t else None)"
    using type_extended [OF assms(2), of "cstr (chars_of ?rest)"] cstr_chars_empty [OF rest(1)] rest(2) assms(2)
    by (auto simp: cstr_append [OF ty(2)])
  show ?thesis
    using assms(3,4) len last type unfolding hs
    by (auto simp: read_handshake_def Let_def)
qed

section \<open>The request and its answer\<close>

text \<open>How much of its input a descriptor has read, and a descriptor on which \<open>s\<close> arrives.\<close>

definition consumed :: "int \<Rightarrow> dm_call list \<Rightarrow> nat" where
  "consumed fd l = sum_list (map (\<lambda>c. case c of DmRead f n \<Rightarrow> if f = fd then n else 0 | _ \<Rightarrow> 0) l)"

lemma consumed_simps [simp]:
  "consumed fd (l @ [DmRead fd n]) = consumed fd l + n"
  by (simp add: consumed_def)

definition feeds :: "dm_env \<Rightarrow> int \<Rightarrow> string \<Rightarrow> bool" where
  "feeds e fd s \<longleftrightarrow> (\<forall>l n. consumed fd l < length s \<longrightarrow> de_read e l fd n = Inr (take n (drop (consumed fd l) s)))"

lemma read_data_all:
  assumes "feeds e fd s"
  shows "drop (consumed fd l) s = v \<Longrightarrow> \<exists>l'. read_data e fd (length v) acc l = (True, acc @ v, l')"
proof (induction v arbitrary: acc l)
  case (Cons c v)
  have "consumed fd l < length s" using Cons.prems by (metis drop_all list.distinct(1) not_le)
  then have r: "de_read e l fd 1 = Inr [c]" using assms Cons.prems by (simp add: feeds_def)
  have "drop (consumed fd (l @ [DmRead fd 1])) s = v" using arg_cong [OF Cons.prems, of tl] by (simp add: drop_Suc tl_drop)
  from Cons.IH [OF this, of "acc @ [c]"] r show ?case by simp
qed simp

text \<open>Where links do not depend on the time, neither does the device that is found.\<close>

lemma find_device_log:
  assumes "io_ok lk e"
  shows "find_device e nc (st\<lparr>dm_log := l, conns := c\<rparr>) = find_device e nc st"
    and "find_device e nc (st\<lparr>conns := c, dm_log := l\<rparr>) = find_device e nc st"
  using assms
  by (simp_all add: find_device_def check_devnode_def node_match_def io_ok_def
      cong: option.case_cong devtype.case_cong dm_link.case_cong)

lemma device_status_log:
  "device_status sysp (st\<lparr>dm_log := l, conns := c\<rparr>) = device_status sysp st"
  "device_status sysp (st\<lparr>conns := c, dm_log := l\<rparr>) = device_status sysp st"
  by (simp_all add: device_status_def cong: option.case_cong)

lemma find_conn_fresh: "find_conn fd cns = None \<Longrightarrow> cn_fd nc = fd \<Longrightarrow> find_conn fd (cns @ [nc]) = Some (length cns)"
  by (induction cns) (auto split: if_splits)

lemma first_input:
  assumes "find_conn fd (conns st) = None" and "pfd_fd (fds st ! i) = fd" and "pfd_revents (fds st ! i) = POLLIN"
    and "fst (read_handshake e (new_conn fd) (dm_log st)) = Some nc"
  shows "handle_conn e i st = Some (st\<lparr>conns := conns st @ [nc], dm_log := dm_log st @ [DmRead fd 8]\<rparr>)"
proof -
  let ?st = "st\<lparr>conns := conns st @ [new_conn fd]\<rparr>"
  have h: "read_handshake e (new_conn fd) (dm_log st) = (Some nc, dm_log st @ [DmRead fd 8])"
    using assms(4) by (auto simp: read_handshake_def Let_def new_conn_def split: sum.splits if_splits option.splits)
  have "conn_input e (length (conns st)) ?st = Some (True, st\<lparr>conns := conns st @ [nc], dm_log := dm_log st @ [DmRead fd 8]\<rparr>)"
    using h by (simp add: conn_input_def nth_append) (simp add: new_conn_def)
  then show ?thesis using assms(1-3) by (simp add: handle_conn_def)
qed

lemma second_input:
  assumes "io_ok lk e" and "feeds e fd s" and "consumed fd (dm_log st) = 8"
    and "conns st = cns @ [nc]" and "find_conn fd cns = None" and "cn_fd nc = fd"
    and "pfd_fd (fds st ! i) = fd" and "pfd_revents (fds st ! i) = POLLIN"
    and "hd (cn_handshake nc) \<noteq> NUL" and "cn_datalen nc = 0" and "cn_datastr nc = []"
    and "drop 8 s = [lo, hi] @ v" and "unat (u16_of_bytes lo hi) = length v" and "v \<noteq> []"
    and "find_device e (nc\<lparr>cn_datalen := u16_of_bytes lo hi, cn_datastr := v\<rparr>) st = Some (Some sysp)"
    and "device_status sysp st = Some b"
  shows "\<exists>l. handle_conn e i st =
    Some (st\<lparr>conns := cns @ [nc\<lparr>cn_datalen := u16_of_bytes lo hi, cn_datastr := v\<rparr>], dm_log := l @ [DmWrite fd b]\<rparr>)"
proof -
  let ?n = "u16_of_bytes lo hi"
  let ?nc = "nc\<lparr>cn_datalen := u16_of_bytes lo hi, cn_datastr := v\<rparr>"
  have len: "8 < length s" using assms(12) by (metis append_Cons drop_all list.distinct(1) not_le)
  have nz: "?n \<noteq> 0" using assms(13,14) by auto
  have dl: "read_datalen e nc (dm_log st) = (Some (nc\<lparr>cn_datalen := ?n\<rparr>), dm_log st @ [DmRead fd 2])"
    using assms(2,3,6,10,12) len nz by (simp add: read_datalen_def feeds_def)
  have "drop (consumed fd (dm_log st @ [DmRead fd 2])) s = v"
    using assms(3,12) by (metis add.commute append_eq_conv_conj consumed_simps drop_drop length_Cons list.size(3) numeral_2_eq_2 One_nat_def)
  from read_data_all [OF assms(2) this, of "[]"]
  obtain l where rd: "read_data e fd (length v) [] (dm_log st @ [DmRead fd 2]) = (True, v, l)" by auto
  have w: "de_write e l fd" for l using assms(1) by (simp add: io_ok_def)
  have "read_value e (length cns) nc st =
      Some (True, st\<lparr>conns := cns @ [?nc], dm_log := l @ [DmWrite fd b]\<rparr>)"
    using assms(4,6,11,13-16) dl rd w
    by (simp add: read_value_def Let_def answer_def find_device_log [OF assms(1)] device_status_log)
  then have "conn_input e (length cns) st = Some (True, st\<lparr>conns := cns @ [?nc], dm_log := l @ [DmWrite fd b]\<rparr>)"
    using assms(4,9,10) by (simp add: conn_input_def nth_append Let_def)
  then show ?thesis
    using assms(4-8) find_conn_fresh [OF assms(5,6)] by (auto simp: handle_conn_def)
qed

lemma client_served:
  assumes "io_ok lk e" and "dm_inv five st" and "length wz = 10"
    and "dc_request wz [devn, fdarg] fdok = Inr (hs, val)" and "dc_target devn = Inr (ty, name)"
    and "handshake_type ty = Some t" and "length name < 2 ^ 16"
    and "wz ! (1 + length ty) = 0" and "wz ! 7 = 0"
    and "feeds e fd (chars_of (hs @ val))" and "consumed fd (dm_log st) = 0" and "find_conn fd (conns st) = None"
    and "pfd_fd (fds st ! i) = fd" and "pfd_revents (fds st ! i) = POLLIN"
  shows "\<exists>st1 st2 nc sysp b l. handle_conn e i st = Some st1 \<and> handle_conn e i st1 = Some st2 \<and>
    conns st2 = conns st @ [nc] \<and> cn_fd nc = fd \<and> cn_devtype nc = Some t \<and> cn_datastr nc = name \<and> complete nc \<and>
    find_device e nc st = Some (Some sysp) \<and> device_status sysp st = Some b \<and> dm_log st2 = l @ [DmWrite fd b]"
proof -
  let ?n = "dc_devlen name"
  have hs: "hs = dc_handshake wz ty ?n" "?n \<noteq> 0" "val = take (unat ?n) (bytes_of name)"
    using assms(4,5) by (auto simp: dc_request_def Let_def split: if_splits)
  have n: "unat ?n = length name" using assms(7) by (simp add: dc_devlen_def unat_of_nat take_bit_nat_eq_self)
  then have val: "chars_of val = name" using hs(3) by (simp add: chars_of_def bytes_of_def char_of_byte comp_def)
  have name: "name \<noteq> []" using hs(2) n by (metis length_0_conv unsigned_eq_0_iff)
  have ty: "length ty \<le> 5" using type_cases [OF assms(6)] by auto
  let ?h = "CHR 0xDD # ty @ chars_of (take (7 - length ty) (drop (1 + length ty) wz))"
  let ?lo = "char_of (unat (ucast ?n :: u8)) :: char" and ?hi = "char_of (unat (ucast (drop_bit 8 ?n) :: u8)) :: char"
  have bytes: "chars_of hs = ?h @ [?lo, ?hi]"
    using handshake_bytes [OF assms(3), of ty ?n] ty unfolding hs(1) by (simp add: chars_of_def)
  have len: "length ?h = 8" using ty assms(3) by simp
  let ?s = "chars_of (hs @ val)"
  have s8: "take 8 ?s = ?h" "drop 8 ?s = [?lo, ?hi] @ name" "take 8 (chars_of hs) = ?h"
    using bytes len val by simp_all
  have lh: "u16_of_bytes ?lo ?hi = ?n" by (rule u16_bytes)
  let ?nc1 = "(new_conn fd)\<lparr>cn_handshake := ?h, cn_devtype := Some t\<rparr>"
  have "de_read e (dm_log st) fd 8 = Inr (take 8 (chars_of (dc_handshake wz ty ?n)))"
    using assms(10,11) len s8 unfolding hs(1) [symmetric] by (simp add: feeds_def bytes)
  from handshake_accepted [OF assms(3,6) this, of "new_conn fd"] assms(8,9)
  have acc: "fst (read_handshake e (new_conn fd) (dm_log st)) = Some ?nc1"
    using s8(3) unfolding hs(1) [symmetric] by (simp add: new_conn_def)
  let ?st1 = "st\<lparr>conns := conns st @ [?nc1], dm_log := dm_log st @ [DmRead fd 8]\<rparr>"
  have 1: "handle_conn e i st = Some ?st1" by (rule first_input [OF assms(12-14) acc])
  let ?nc2 = "?nc1\<lparr>cn_datalen := ?n, cn_datastr := name\<rparr>"
  have mem: "mem_ok e" using assms(1) by (simp add: mem_ok_def io_ok_def)
  obtain sysp where f: "find_device e ?nc2 st = Some (Some sysp)" "set_option sysp \<subseteq> dom (map_sys st)"
    using find_device_total [OF mem assms(2), of ?nc2] by (auto dest!: yieldsD)
  obtain b where b: "device_status sysp st = Some b"
    using device_status_total [OF assms(2) f(2)] by (auto dest!: yieldsD)
  have "\<exists>l. handle_conn e i ?st1 = Some (?st1\<lparr>conns := conns st @ [?nc2], dm_log := l @ [DmWrite fd b]\<rparr>)"
    using second_input [OF assms(1,10), of ?st1 "conns st" ?nc1 i ?lo ?hi name sysp b] assms(11-14) s8(2) lh n name f b
    by (simp add: new_conn_def consumed_def device_status_log find_device_log [OF assms(1)])
  then obtain l where 2: "handle_conn e i ?st1 = Some (?st1\<lparr>conns := conns st @ [?nc2], dm_log := l @ [DmWrite fd b]\<rparr>)"
    by blast
  have "complete ?nc2" using hs(2) n by (simp add: complete_def)
  then show ?thesis
    using 1 2 f(1) b
    by (intro exI [of _ ?st1] exI [of _ "?st1\<lparr>conns := conns st @ [?nc2], dm_log := l @ [DmWrite fd b]\<rparr>"] exI [of _ ?nc2]
        exI [of _ sysp] exI [of _ b] exI [of _ l]) (simp add: new_conn_def)
qed

section \<open>The client and the life of a device\<close>

text \<open>The bytes that were sent to a descriptor.\<close>

definition to_fd :: "int \<Rightarrow> dm_call \<Rightarrow> bool" where
  "to_fd fd c = (case c of DmWrite f b \<Rightarrow> f = fd | _ \<Rightarrow> False)"

definition byte_of :: "dm_call \<Rightarrow> u8" where
  "byte_of c = (case c of DmWrite f b \<Rightarrow> b | _ \<Rightarrow> 0)"

definition sent_to :: "int \<Rightarrow> dm_call list \<Rightarrow> u8 list" where
  "sent_to fd l = map byte_of (filter (to_fd fd) l)"

lemma sent_to_append: "sent_to fd (a @ b) = sent_to fd a @ sent_to fd b"
  by (simp add: sent_to_def)

lemma filter_distinct_fd:
  "distinct (map cn_fd cns) \<Longrightarrow> nc \<in> set cns \<Longrightarrow> P nc \<Longrightarrow> filter (\<lambda>cn. P cn \<and> cn_fd cn = cn_fd nc) cns = [nc]"
proof (induction cns)
  case (Cons c cns)
  show ?case
  proof (cases "c = nc")
    case True
    then have "filter (\<lambda>cn. P cn \<and> cn_fd cn = cn_fd nc) cns = []"
      using Cons.prems by (force simp: filter_empty_conv image_iff)
    then show ?thesis using True Cons.prems by simp
  next
    case False
    then have "cn_fd c \<noteq> cn_fd nc" using Cons.prems by (auto simp: image_iff)
    then show ?thesis using False Cons by simp
  qed
qed simp

lemma news_sent:
  assumes "wrote st st' (news lk d b cns)" and "distinct (map cn_fd cns)" and "nc \<in> set cns" and "watches lk d nc"
  shows "\<exists>new. dm_log st' = dm_log st @ new \<and> sent_to (cn_fd nc) new = [b]"
proof -
  obtain new where new: "dm_log st' = dm_log st @ new" "mset (filter is_write new) = mset (told_bytes (watches lk d) b cns)"
    using assms(1) by (auto simp: wrote_def news_def)
  have "filter (to_fd fd) new = filter (to_fd fd) (filter is_write new)" for fd
    by (auto simp: to_fd_def is_write_def intro!: filter_cong split: dm_call.splits)
  then have "mset (filter (to_fd (cn_fd nc)) new) = mset (filter (to_fd (cn_fd nc)) (told_bytes (watches lk d) b cns))"
    using new(2) by (metis mset_filter)
  also have "filter (to_fd (cn_fd nc)) (told_bytes (watches lk d) b cns) = [DmWrite (cn_fd nc) b]"
    using filter_distinct_fd [OF assms(2,3), of "watches lk d"] assms(4)
    by (simp add: told_bytes_def filter_map comp_def to_fd_def conj_commute)
  finally have "filter (to_fd (cn_fd nc)) new = [DmWrite (cn_fd nc) b]" by (simp add: mset_single_iff del: mset_filter)
  then show ?thesis using new(1) by (simp add: sent_to_def byte_of_def)
qed

text \<open>A device as its first event describes it.\<close>

definition described :: "udev_device \<Rightarrow> string \<Rightarrow> string \<Rightarrow> device" where
  "described dev k ssys = new_device\<lparr>dv_syspath := k, dv_subsys := ssys,
     dv_name := (case if ssys = ''net'' then ud_sysname dev else ud_devnode dev of Some n \<Rightarrow> n | None \<Rightarrow> []),
     dv_mac := (case if ssys = ''net'' then ud_sysattr dev ''address'' else None of Some m \<Rightarrow> m | None \<Rightarrow> [])\<rparr>"

lemma device_life_sent:
  assumes "io_ok lk e" and "map_sys st k = None" and "nc \<in> set (conns st)" and "distinct (map cn_fd (conns st))"
    and "ud_syspath a = Some k" and "ud_subsystem a = Some ssys" and "ssys \<noteq> ''usb''"
    and "ud_action a = Some act" and "act \<notin> {''bind'', ''unbind'', ''remove''}" and "\<not> ud_has_tag a ''dinit''"
    and "ud_syspath r = Some k" and "ud_subsystem r = Some ssys" and "ud_action r = Some ''remove''"
    and "\<not> ud_has_tag r ''dinit''" and "map_usb st (ud_devnum r) = None"
    and "watches lk (described a k ssys) nc"
  shows "\<exists>st1 st2 new. resolve_device e (Some a) False st = Some (True, st1) \<and> resolve_device e (Some r) False st1 = Some (True, st2) \<and>
    dm_log st2 = dm_log st @ new \<and> sent_to (cn_fd nc) new = [1, 0]"
proof -
  obtain st1 d where 1: "resolve_device e (Some a) False st = Some (True, st1)" "map_sys st1 k = Some d"
    "wrote st st1 (news lk d 1 (conns st))" "conns st1 = conns st" "map_usb st1 = map_usb st" "\<not> dv_removed d" "\<not> dv_has_tag d"
    "dv_syspath d = k" "dv_subsys d = ssys"
    "dv_name d = (case if ssys = ''net'' then ud_sysname a else ud_devnode a of Some n \<Rightarrow> n | None \<Rightarrow> [])"
    "dv_mac d = (case if ssys = ''net'' then ud_sysattr a ''address'' else None of Some m \<Rightarrow> m | None \<Rightarrow> [])"
    using untagged_arrival_told [OF assms(1,2,5-10), of False] by blast
  have "watches lk d = watches lk (described a k ssys)"
    by (rule watches_cong) (simp_all add: described_def 1(8-11) new_device_def)
  then have w: "watches lk d nc" using assms(16) by simp
  have u: "map_usb st1 (ud_devnum r) = None" using 1(5) assms(15) by simp
  obtain st2 where 2: "resolve_device e (Some r) False st1 = Some (True, st2)" "wrote st1 st2 (news lk d 0 (conns st))"
    using untagged_removal [OF assms(1) 1(2,6,7) assms(11-14) u, of False] 1(4) by auto
  obtain n1 n2 where "dm_log st1 = dm_log st @ n1" "sent_to (cn_fd nc) n1 = [1]" "dm_log st2 = dm_log st1 @ n2" "sent_to (cn_fd nc) n2 = [0]"
    using news_sent [OF 1(3) assms(4,3) w] news_sent [OF 2(2) assms(4,3) w] by blast
  then show ?thesis
    using 1(1) 2(1) by (intro exI [of _ st1] exI [of _ st2] exI [of _ "n1 @ n2"]) (simp add: sent_to_append)
qed

end
