(* ===== verification/Spec2Isabelle.thy ===== *)
theory Spec2Isabelle
  imports Blake2s_Vector SeedRng Mnt Swap Sysctl Kmod Binfmt Clock Lo Devmon_Runs DevProtocol
begin

text \<open>
  This development models the early boot helpers of dinit-chimera, the C++ programs under
  \<^verbatim>\<open>src/early/helpers\<close>, and proves what makes them correct.

  \<^bold>\<open>The programs and how they meet.\<close> The services of the early boot run the helpers one after the other:
  \<open>mnt\<close> mounts the pseudo file systems and remounts the root, \<open>kmod\<close> loads kernel modules, \<open>sysctl\<close> and \<open>binfmt\<close>
  write configuration into the kernel, \<open>seedrng\<close> seeds the random number generator, \<open>hwclock\<close> and \<open>swclock\<close>
  set the time, \<open>swap\<close> turns swap space on and off, \<open>lo\<close> brings the loopback interface up. \<open>devmon\<close> stays: it
  watches udev, drives dinit services for tagged devices and tells its clients when a device is
  there; \<open>devclient\<close> is the client that a device service runs.

  \<^bold>\<open>Theories.\<close> A theory has the record of the state, the datatypes, the operations in the order of the
  source and the lemmas on them.

  \<^item> \<open>Prelude\<close>: machine types, C strings (\<open>cstr\<close>, \<open>strchr\<close>, \<open>strneq\<close>, \<open>atoi\<close>), printed numbers, loops over fallible
    steps (\<open>foldo\<close>), results that exist with a property (\<open>yields\<close>), and the locale \<open>safe_step\<close>: a step
    that keeps an invariant can be repeated.
  \<^item> \<open>Blake2s\<close>, \<open>Blake2s_Vector\<close>, \<open>SeedRng\<close>: \<^verbatim>\<open>seedrng.cc\<close>. The hash on 32-bit words, equal to the hash of the
    concatenation however the input is cut, and equal to the published vector for \<open>abc\<close>; the transfer
    loops, the use of a stored seed only after it has been removed for good, the new seed.
  \<^item> \<open>Mnt\<close>: \<^verbatim>\<open>mnt.cc\<close>. Option strings to flags and back, the mounts of \<open>do_prepare\<close>, the remount of the root.
  \<^item> \<open>ConfDir\<close>, \<open>Sysctl\<close>, \<open>Kmod\<close>, \<open>Binfmt\<close>: \<^verbatim>\<open>sysctl.cc\<close>, \<^verbatim>\<open>kmod.cc\<close>, \<^verbatim>\<open>binfmt.cc\<close>. The scan of the configuration
    directories they share, and what each does with a line.
  \<^item> \<open>Clock\<close>: \<^verbatim>\<open>clock_common.hh\<close>, \<^verbatim>\<open>swclock.cc\<close>, \<^verbatim>\<open>hwclock.cc\<close>. \<open>Swap\<close>: \<^verbatim>\<open>swap.cc\<close>. \<open>Lo\<close>: \<^verbatim>\<open>lo.cc\<close>.
  \<^item> \<open>Devmon\<close>: the state of \<^verbatim>\<open>devmon.cc\<close> (record \<open>dm\<close>: the descriptors \<open>fds\<close>, the connections, the tables of
    devices, the open requests to dinit, the log of calls) and the member functions of \<open>struct device\<close>.
    \<open>Devmon_Dinit\<close>: \<open>device::process\<close>, the callbacks of requests to dinit, and \<open>add_device\<close>, \<open>remove_device\<close>,
    \<open>resolve_device\<close>. \<open>Devmon_Loop\<close>: the protocol of a connection and one round of the event loop.
    \<open>Devmon_Main\<close>: the set-up and \<open>main\<close>. \<open>Devmon_Inv\<close>: the invariant \<open>dm_inv\<close>, kept by every operation, which
    also never ends in \<open>abort\<close>, an uncaught exception or a null pointer. \<open>Devmon_Notify\<close>: who is told what
    when a device comes and goes, as a specification (\<open>watches\<close>) and its refinement by \<open>ready\<close>.
    \<open>Devmon_Progress\<close>: the operations as an inductive step relation; in every reachable state the count of
    pending services is the number of replies and events to come, and it is said exactly when a
    device waits for nothing. \<open>Devmon_Runs\<close>: a run of \<open>main\<close> is a sequence of these steps.
    \<open>Devmon_Faults\<close>: three ways in which the bookkeeping goes wrong.
  \<^item> \<open>DevClient\<close>: \<^verbatim>\<open>devclient.cc\<close>. \<open>DevProtocol\<close> and the end of this theory: the bytes of the client read by
    the monitor, and the client's loop on the bytes that the monitor writes while a device comes and goes.

  \<^bold>\<open>Effects.\<close> What leaves a program - system calls, libkmod, libudev, libdinitctl - is an environment: a
  record of functions from the calls made so far and the arguments to the result, or a list of what
  arrives. A program returns the calls it made. What the code relies on is stated as a hypothesis
  on the environment (\<open>io_ok\<close>, \<open>issue_ok\<close>, \<open>mem_ok\<close>, \<open>boot_ok\<close>, \<open>round_ok\<close> and the like), each with an instance.
  Errors are values: a sum, an option or the exit status; \<open>None\<close> in the device monitor is the death of
  the process.

  \<^bold>\<open>Loops and fuel.\<close> Loops over data are recursive functions with termination proofs. Loops that
  depend on the outside run over the list of what the outside delivers: a run of the event loop of
  \<open>devmon\<close> is a list of rounds, and one that has used them all waits in \<open>poll\<close>; the theorems hold for every
  list. The transfer loops of \<open>seedrng\<close> take fuel, and \<open>seedrng_returns\<close> shows how much is enough.

  \<^bold>\<open>Choices in the device monitor.\<close> The tables keyed by \<open>string_view\<close> are maps from the text at the time
  of insertion. For \<open>map_dev\<close> and \<open>map_netif\<close> the viewed string changes only after the entry has been erased;
  \<open>map_mac\<close> keeps entries whose string has changed, so that no theorem rests on it after a change. A
  pointer to a device is its key in \<open>map_sys\<close>, whose entries are never erased. The sets of services are
  lists without repetition, and sets that were moved from are empty. Replies of dinit may come in any
  order, and the invariant on pending services holds for every order; the two theorems on the arrival and
  the removal of one tagged device take them in the order of the requests.

  \<^bold>\<open>Not modelled.\<close> Messages, \<open>umask\<close>, signal set-up (a signal is an input of a round), the freeing of memory,
  and \<open>close\<close> where no claim depends on it. The boot scripts under \<^verbatim>\<open>src/early/scripts\<close>, \<^verbatim>\<open>src/init\<close> and
  \<^verbatim>\<open>src/shutdown-hook\<close> are shell, and the services, tmpfiles and manual pages hold no code.
\<close>

unbundle bit_operations_syntax

section \<open>The device monitor and its client\<close>

text \<open>
  C22: The monitor accepts the handshake of the client exactly when two bytes of the client's array
  that it never writes are zero: the one after the type and the last of the eight; then the
  connection has the type that was asked for.
\<close>

theorem handshake_accepted_iff:
  assumes "length wz = 10" and "handshake_type ty = Some t"
    and "de_read e l fd 8 = Inr (take 8 (chars_of (dc_handshake wz ty n)))" and "cn_fd nc = fd"
  shows "fst (read_handshake e nc l) =
    (if wz ! (1 + length ty) = 0 \<and> wz ! 7 = 0
     then Some (nc\<lparr>cn_handshake := take 8 (chars_of (dc_handshake wz ty n)), cn_devtype := Some t\<rparr>)
     else None)"
  using assms by (rule handshake_accepted)

theorem handshake_accepted_iff_witness:
  "fst (read_handshake (calm_env\<lparr>de_read := (\<lambda>l fd n. Inr (take 8 (chars_of (dc_handshake (replicate 10 0) ''dev'' 6))))\<rparr>)
      (new_conn 8) []) =
     Some ((new_conn 8)\<lparr>cn_handshake := take 8 (chars_of (dc_handshake (replicate 10 0) ''dev'' 6)), cn_devtype := Some DEVICE_DEV\<rparr>) \<and>
   fst (read_handshake (calm_env\<lparr>de_read := (\<lambda>l fd n. Inr (take 8 (chars_of (dc_handshake (replicate 10 1) ''dev'' 6))))\<rparr>)
      (new_conn 8) []) = None"
  using handshake_accepted_iff [of "replicate 10 0" "''dev''" DEVICE_DEV
      "calm_env\<lparr>de_read := (\<lambda>l fd n. Inr (take 8 (chars_of (dc_handshake (replicate 10 0) ''dev'' 6))))\<rparr>" "[]" 8 6 "new_conn 8"]
    handshake_accepted_iff [of "replicate 10 1" "''dev''" DEVICE_DEV
      "calm_env\<lparr>de_read := (\<lambda>l fd n. Inr (take 8 (chars_of (dc_handshake (replicate 10 1) ''dev'' 6))))\<rparr>" "[]" 8 6 "new_conn 8"]
  by (simp add: handshake_type_def new_conn_def)


text \<open>An environment in which \<open>s\<close> arrives on every descriptor.\<close>

definition feeding :: "string \<Rightarrow> dm_env" where
  "feeding s = calm_env\<lparr>de_read := (\<lambda>l fd n. if consumed fd l < length s then Inr (take n (drop (consumed fd l) s)) else Inl EAGAIN)\<rparr>"

lemma feeding_feeds: "feeds (feeding s) fd s" "io_ok (\<lambda>p. NotLink) (feeding s)"
  by (simp_all add: feeds_def feeding_def io_ok_def calm_env_def)




end
